theory Spec2Isabelle
  imports Main "HOL-Library.AList"
begin

section \<open>Strings, time and the static account mapping (models.py)\<close>

text \<open>
  A Python \<open>str\<close> is a sequence of Unicode code points; it is modelled as a list of
  code points, so that the non-ASCII literals of the source (the viewer's user name, the
  account names) are values of the model and \<open>str.strip\<close> sees the same characters.
\<close>

type_synonym str = "nat list"

text \<open>
  \<open>str.strip()\<close> without argument removes leading and trailing white space, that is
  the code points for which Python's \<open>str.isspace\<close> holds.
\<close>

definition isspace :: "nat \<Rightarrow> bool" where
  "isspace c \<longleftrightarrow>
     (9 \<le> c \<and> c \<le> 13) \<or> (28 \<le> c \<and> c \<le> 32) \<or> c = 133 \<or> c = 160 \<or> c = 5760 \<or>
     (8192 \<le> c \<and> c \<le> 8202) \<or> c = 8232 \<or> c = 8233 \<or> c = 8239 \<or> c = 8287 \<or> c = 12288"

definition strip :: "str \<Rightarrow> str" where
  "strip u = rev (dropWhile isspace (rev (dropWhile isspace u)))"

text \<open>
  A naive \<open>datetime\<close> is modelled by its number of microseconds on the local clock; the
  ISO string stored in \<open>login_time\<close> and \<open>created_time\<close> stands for the datetime that
  \<open>datetime.fromisoformat\<close> reads back from it. Every \<open>datetime.now()\<close> of the source
  is a parameter of the model.
\<close>

type_synonym datetime = int

definition timedelta_hours :: "int \<Rightarrow> int" where
  "timedelta_hours h = h * 60 * 60 * 1000000"

definition timedelta_minutes :: "int \<Rightarrow> int" where
  "timedelta_minutes m = m * 60 * 1000000"

text \<open>The pydantic model \<open>UserSession\<close>.\<close>

record UserSession =
  username :: str
  is_viewer :: bool
  login_time :: datetime

text \<open>
  An entry of \<open>Database.accounts\<close> is a Python dict: the seven keys of
  \<open>AccountRecord.dict()\<close>, and the key \<open>remaining_amount\<close>, which a dict has from the
  moment \<open>get_all_accounts\<close> writes it (\<open>None\<close>: the key is absent).
\<close>

record account_dict =
  account_code :: str
  account_name :: str
  total_amount :: int
  manager :: str
  created_time :: datetime
  paid_amounts :: "int list"
  locked :: bool
  remaining_amount :: "int option"

text \<open>\<open>AccountRecord(...).dict()\<close> with the defaults \<open>paid_amounts = []\<close>, \<open>locked = False\<close>.\<close>

definition AccountRecord_dict :: "str \<Rightarrow> str \<Rightarrow> int \<Rightarrow> str \<Rightarrow> datetime \<Rightarrow> account_dict" where
  "AccountRecord_dict acode aname atotal mgr created =
     \<lparr>account_code = acode, account_name = aname, total_amount = atotal, manager = mgr,
      created_time = created, paid_amounts = [], locked = False, remaining_amount = None\<rparr>"

text \<open>\<open>ACCOUNT_MAPPING\<close>: the keys are the digit strings 1243, 1001, ..., 1008.\<close>

definition ACCOUNT_MAPPING :: "(str \<times> str) list" where
  "ACCOUNT_MAPPING =
    [([49, 50, 52, 51], [27888, 24247, 36164, 20135, 88, 88, 24180, 37329]),
     ([49, 48, 48, 49], [24179, 23433, 20445, 38505, 20859, 32769, 37329]),
     ([49, 48, 48, 50], [22269, 23551, 25237, 36164, 19987, 25143]),
     ([49, 48, 48, 51], [22826, 20445, 36164, 31649, 32452, 21512]),
     ([49, 48, 48, 52], [26032, 21326, 20445, 38505, 25237, 36164, 25143]),
     ([49, 48, 48, 53], [20154, 20445, 36164, 20135, 19987, 39033]),
     ([49, 48, 48, 54], [22826, 24179, 20859, 32769, 32452, 21512]),
     ([49, 48, 48, 55], [21326, 27888, 36164, 20135, 20135, 21697]),
     ([49, 48, 48, 56], [23433, 37030, 20445, 38505, 25237, 36164])]"

text \<open>The user name that \<open>login\<close> gives every viewer session (three CJK code points).\<close>

definition viewer_name :: str where
  "viewer_name = [27983, 35272, 32773]"


section \<open>The persistence store (database.py)\<close>

text \<open>
  What the store finds of a file: it does not exist, reading it raises (\<open>json.load\<close>,
  a missing key, a \<open>login_time\<close> that \<open>fromisoformat\<close> refuses), or it holds a value.
\<close>

datatype 'a document = Missing | Unreadable | Document 'a

text \<open>
  \<open>Database.accounts\<close> is a list of references to dict objects, and
  \<open>get_all_accounts\<close> copies the list, not the dicts. The model keeps the dict objects
  in \<open>heap\<close> (a reference is a position in it; a new dict is appended) and the list of
  references in \<open>accounts\<close>. \<open>sessions\<close> is the dict from token to session, in insertion
  order. \<open>data_file\<close> and \<open>sessions_file\<close> are the two documents on disk.
\<close>

record database =
  heap :: "account_dict list"
  accounts :: "nat list"
  sessions :: "(str \<times> UserSession) list"
  data_file :: "account_dict list document"
  sessions_file :: "(str \<times> UserSession) list document"

text \<open>
  \<open>load_data\<close>: \<open>json.load\<close> builds new dicts; a session is admitted if it is less
  than 24 hours old at the clock reading of its turn of the loop (\<open>clock i\<close> for the
  \<open>i\<close>-th entry of the document).
\<close>

definition load_data :: "(nat \<Rightarrow> datetime) \<Rightarrow> database \<Rightarrow> database" where
  "load_data clock s =
     (let s1 =
            (case data_file s of
               Missing \<Rightarrow> s
             | Unreadable \<Rightarrow> s\<lparr>accounts := []\<rparr>
             | Document data \<Rightarrow>
                 s\<lparr>heap := heap s @ data,
                   accounts := [length (heap s) ..< length (heap s) + length data]\<rparr>)
      in case sessions_file s1 of
           Missing \<Rightarrow> s1
         | Unreadable \<Rightarrow> s1\<lparr>sessions := []\<rparr>
         | Document sessions_data \<Rightarrow>
             s1\<lparr>sessions :=
                  foldl (\<lambda>ss (i, session_id, session_data).
                           if clock i - login_time session_data < timedelta_hours 24
                           then AList.update session_id session_data ss else ss)
                        [] (enumerate 0 sessions_data)\<rparr>)"

text \<open>\<open>Database()\<close> over the two files as they are on disk.\<close>

definition Database_init ::
  "account_dict list document \<Rightarrow> (str \<times> UserSession) list document \<Rightarrow> (nat \<Rightarrow> datetime) \<Rightarrow> database" where
  "Database_init data_doc sessions_doc clock =
     load_data clock
       \<lparr>heap = [], accounts = [], sessions = [], data_file = data_doc, sessions_file = sessions_doc\<rparr>"

text \<open>The store of \<open>Database()\<close> when neither file exists.\<close>

definition db_init :: database where
  "db_init = \<lparr>heap = [], accounts = [], sessions = [], data_file = Missing, sessions_file = Missing\<rparr>"

text \<open>The dict that the \<open>i\<close>-th entry of \<open>Database.accounts\<close> refers to.\<close>

definition account_at :: "database \<Rightarrow> nat \<Rightarrow> account_dict" where
  "account_at s i = heap s ! (accounts s ! i)"

text \<open>
  \<open>json.dump\<close> writes an int through its decimal string, and CPython converts an int
  to a string only if it has at most \<open>sys.int_info.default_max_str_digits = 4300\<close>
  digits; otherwise the conversion raises \<open>ValueError\<close>. The ints of an account dict
  are its total, its payments and its remaining amount where the key is present.
\<close>

datatype py_exception = ValueError

definition max_str_digits :: nat where
  "max_str_digits = 4300"

definition str_digits_ok :: "int \<Rightarrow> bool" where
  "str_digits_ok n \<longleftrightarrow> \<bar>n\<bar> < 10 ^ max_str_digits"

definition json_dumpable :: "account_dict \<Rightarrow> bool" where
  "json_dumpable d \<longleftrightarrow>
     str_digits_ok (total_amount d) \<and> list_all str_digits_ok (paid_amounts d) \<and>
     (case remaining_amount d of None \<Rightarrow> True | Some r \<Rightarrow> str_digits_ok r)"

text \<open>
  \<open>save_data\<close> dumps the dicts as they are, and then every session. Where an int of
  the accounts cannot be written, \<open>json.dump\<close> raises after \<open>open(DATA_FILE, 'w')\<close> has
  emptied the accounts document and part of the text has been written: the document is
  left unreadable, the sessions document is not reached, and the exception leaves
  \<open>save_data\<close> and its caller.
\<close>

definition db_save_data :: "database \<Rightarrow> (py_exception + unit) \<times> database" where
  "db_save_data s =
     (if list_all json_dumpable (map (\<lambda>r. heap s ! r) (accounts s))
      then (Inr (),
            s\<lparr>data_file := Document (map (\<lambda>r. heap s ! r) (accounts s)),
              sessions_file := Document (sessions s)\<rparr>)
      else (Inl ValueError, s\<lparr>data_file := Unreadable\<rparr>))"

text \<open>
  The body of the loop of \<open>get_all_accounts\<close>: the assignment
  \<open>account['remaining_amount'] = ...\<close> writes the dict object that \<open>account\<close> refers to.
\<close>

definition set_remaining :: "account_dict list \<Rightarrow> nat \<Rightarrow> account_dict list" where
  "set_remaining h r =
     h[r := (h ! r)\<lparr>remaining_amount :=
               Some (total_amount (h ! r) - sum_list (paid_amounts (h ! r)))\<rparr>]"

text \<open>
  \<open>get_all_accounts\<close> returns the copied list of references; the caller reads the dicts
  in the heap of the returned store.
\<close>

definition db_get_all_accounts :: "database \<Rightarrow> nat list \<times> database" where
  "db_get_all_accounts s =
     (let accounts_copy = accounts s
      in (accounts_copy, s\<lparr>heap := foldl set_remaining (heap s) accounts_copy\<rparr>))"

definition db_add_account :: "account_dict \<Rightarrow> database \<Rightarrow> (py_exception + unit) \<times> database" where
  "db_add_account account_dict s =
     db_save_data (s\<lparr>heap := heap s @ [account_dict],
                     accounts := accounts s @ [length (heap s)]\<rparr>)"

text \<open>\<open>update_account\<close> stores the reference it is given.\<close>

definition db_update_account :: "int \<Rightarrow> nat \<Rightarrow> database \<Rightarrow> (py_exception + unit) \<times> database" where
  "db_update_account index account_data s =
     (if 0 \<le> index \<and> index < int (length (accounts s))
      then db_save_data (s\<lparr>accounts := (accounts s)[nat index := account_data]\<rparr>)
      else (Inr (), s))"

definition db_delete_account :: "int \<Rightarrow> database \<Rightarrow> (py_exception + unit) \<times> database" where
  "db_delete_account index s =
     (if 0 \<le> index \<and> index < int (length (accounts s))
      then db_save_data
             (s\<lparr>accounts := take (nat index) (accounts s) @ drop (Suc (nat index)) (accounts s)\<rparr>)
      else (Inr (), s))"

definition db_add_paid_amount :: "int \<Rightarrow> int \<Rightarrow> database \<Rightarrow> (py_exception + unit) \<times> database" where
  "db_add_paid_amount index amount s =
     (if 0 \<le> index \<and> index < int (length (accounts s))
      then (let r = accounts s ! nat index
            in db_save_data
                 (s\<lparr>heap := (heap s)[r := (heap s ! r)
                                \<lparr>paid_amounts := paid_amounts (heap s ! r) @ [amount]\<rparr>]\<rparr>))
      else (Inr (), s))"

definition db_toggle_lock :: "int \<Rightarrow> bool \<Rightarrow> database \<Rightarrow> (py_exception + unit) \<times> database" where
  "db_toggle_lock index new_locked s =
     (if 0 \<le> index \<and> index < int (length (accounts s))
      then (let r = accounts s ! nat index
            in db_save_data (s\<lparr>heap := (heap s)[r := (heap s ! r)\<lparr>locked := new_locked\<rparr>]\<rparr>))
      else (Inr (), s))"

definition db_cleanup_expired_sessions :: "datetime \<Rightarrow> database \<Rightarrow> (py_exception + unit) \<times> database" where
  "db_cleanup_expired_sessions current_time s =
     (let expired_sessions =
            map fst (filter (\<lambda>(session_id, session).
                               current_time - login_time session \<ge> timedelta_hours 24)
                            (sessions s));
          s1 = s\<lparr>sessions := foldl (\<lambda>ss session_id. AList.delete session_id ss)
                                   (sessions s) expired_sessions\<rparr>
      in if expired_sessions \<noteq> [] then db_save_data s1 else (Inr (), s1))"


section \<open>The request handlers (main.py)\<close>

text \<open>
  A handler returns its response, raises \<open>HTTPException(status_code, detail)\<close>, or
  is left by an exception of the store that nothing catches (the server answers it
  with status 500); in each case the store is left as the handler changed it. The
  details are the messages of the source, in its order of appearance.
\<close>

datatype detail =
    Viewer_cannot_add_account
  | Invalid_account_code
  | Not_logged_in
  | Account_does_not_exist
  | Account_is_locked
  | Amount_exceeds_remaining
  | Only_own_account_lock
  | Only_own_account_delete
  | Account_code_does_not_exist

datatype raised = HTTPException nat detail | Unhandled py_exception

fun status_code :: "raised \<Rightarrow> nat" where
  "status_code (HTTPException c d) = c"
| "status_code (Unhandled e) = 500"

datatype cookie = Set_cookie str | Delete_cookie | No_cookie

datatype response =
    Login_page bool cookie
  | Index_page UserSession "account_dict list"
  | Redirect cookie
  | Account_name_json str

type_synonym outcome = "(raised + response) \<times> database"

text \<open>The error names of the specification.\<close>

definition Forbidden :: "raised + response \<Rightarrow> bool" where
  "Forbidden res = (case res of Inl e \<Rightarrow> status_code e = 403 | Inr _ \<Rightarrow> False)"

definition InvalidCode :: "raised + response" where
  "InvalidCode = Inl (HTTPException 400 Invalid_account_code)"

definition PaymentExceedsRemaining :: "raised + response" where
  "PaymentExceedsRemaining = Inl (HTTPException 400 Amount_exceeds_remaining)"

text \<open>
  \<open>get_session\<close>: the cookie is \<open>None\<close> or a string, and \<open>session_id and ...\<close> is false
  for both \<open>None\<close> and the empty string. Where \<open>save_data\<close> raises, the expired session
  has been deleted and \<open>return None\<close> is not reached.
\<close>

definition get_session ::
  "str option \<Rightarrow> datetime \<Rightarrow> database \<Rightarrow> (raised + UserSession option) \<times> database" where
  "get_session session_id now s =
     (case session_id of
        None \<Rightarrow> (Inr None, s)
      | Some sid \<Rightarrow>
          if sid = [] then (Inr None, s)
          else (case map_of (sessions s) sid of
                  None \<Rightarrow> (Inr None, s)
                | Some session \<Rightarrow>
                    if now - login_time session < timedelta_hours 24 then (Inr (Some session), s)
                    else (case db_save_data (s\<lparr>sessions := AList.delete sid (sessions s)\<rparr>) of
                            (Inl e, s1) \<Rightarrow> (Inl (Unhandled e), s1)
                          | (Inr _, s1) \<Rightarrow> (Inr None, s1))))"

definition index :: "str option \<Rightarrow> datetime \<Rightarrow> datetime \<Rightarrow> database \<Rightarrow> outcome" where
  "index session_id now1 now2 s =
     (case db_cleanup_expired_sessions now1 s of
        (Inl e, s1) \<Rightarrow> (Inl (Unhandled e), s1)
      | (Inr _, s1) \<Rightarrow>
          (case get_session session_id now2 s1 of
             (Inl e, s2) \<Rightarrow> (Inl e, s2)
           | (Inr None, s2) \<Rightarrow> (Inr (Login_page False Delete_cookie), s2)
           | (Inr (Some session), s2) \<Rightarrow>
               (case db_get_all_accounts s2 of
                  (accs, s3) \<Rightarrow> (Inr (Index_page session (map (\<lambda>r. heap s3 ! r) accs)), s3))))"

text \<open>
  \<open>uuid4\<close> is the string of the fresh \<open>uuid.uuid4()\<close> of this call; the session is
  \<open>None\<close> where the source returns the login page with its error before building one.
\<close>

definition login :: "str \<Rightarrow> bool \<Rightarrow> str \<Rightarrow> datetime \<Rightarrow> database \<Rightarrow> outcome" where
  "login username_form viewer_mode uuid4 now s =
     (let session_id = uuid4;
          session =
            (if viewer_mode
             then Some \<lparr>username = viewer_name, is_viewer = True, login_time = now\<rparr>
             else if strip username_form = [] then None
             else Some \<lparr>username = strip username_form, is_viewer = False, login_time = now\<rparr>)
      in case session of
           None \<Rightarrow> (Inr (Login_page True No_cookie), s)
         | Some session \<Rightarrow>
             (case db_save_data (s\<lparr>sessions := AList.update session_id session (sessions s)\<rparr>) of
                (Inl e, s1) \<Rightarrow> (Inl (Unhandled e), s1)
              | (Inr _, s1) \<Rightarrow> (Inr (Redirect (Set_cookie session_id)), s1)))"

definition logout :: "str option \<Rightarrow> database \<Rightarrow> outcome" where
  "logout session_id s =
     (case session_id of
        None \<Rightarrow> (Inr (Redirect Delete_cookie), s)
      | Some sid \<Rightarrow>
          if sid \<noteq> [] \<and> map_of (sessions s) sid \<noteq> None
          then (case db_save_data (s\<lparr>sessions := AList.delete sid (sessions s)\<rparr>) of
                  (Inl e, s1) \<Rightarrow> (Inl (Unhandled e), s1)
                | (Inr _, s1) \<Rightarrow> (Inr (Redirect Delete_cookie), s1))
          else (Inr (Redirect Delete_cookie), s))"

definition add_account :: "str \<Rightarrow> int \<Rightarrow> str option \<Rightarrow> datetime \<Rightarrow> datetime \<Rightarrow> database \<Rightarrow> outcome" where
  "add_account acode atotal session_id now1 now2 s =
     (case get_session session_id now1 s of
        (Inl e, s1) \<Rightarrow> (Inl e, s1)
      | (Inr None, s1) \<Rightarrow> (Inl (HTTPException 403 Viewer_cannot_add_account), s1)
      | (Inr (Some session), s1) \<Rightarrow>
          if is_viewer session then (Inl (HTTPException 403 Viewer_cannot_add_account), s1)
          else (case map_of ACCOUNT_MAPPING acode of
                  None \<Rightarrow> (Inl (HTTPException 400 Invalid_account_code), s1)
                | Some aname \<Rightarrow>
                    (case db_add_account
                            (AccountRecord_dict acode aname atotal (username session) now2) s1 of
                       (Inl e, s2) \<Rightarrow> (Inl (Unhandled e), s2)
                     | (Inr _, s2) \<Rightarrow> (Inr (Redirect No_cookie), s2))))"

definition add_payment :: "int \<Rightarrow> int \<Rightarrow> str option \<Rightarrow> datetime \<Rightarrow> database \<Rightarrow> outcome" where
  "add_payment account_index amount session_id now s =
     (case get_session session_id now s of
        (Inl e, s1) \<Rightarrow> (Inl e, s1)
      | (Inr None, s1) \<Rightarrow> (Inl (HTTPException 403 Not_logged_in), s1)
      | (Inr (Some session), s1) \<Rightarrow>
          (case db_get_all_accounts s1 of
             (accs, s2) \<Rightarrow>
               if account_index < 0 \<or> account_index \<ge> int (length accs)
               then (Inl (HTTPException 404 Account_does_not_exist), s2)
               else
                 (let account = heap s2 ! (accs ! nat account_index) in
                  if locked account \<and> manager account \<noteq> username session
                  then (Inl (HTTPException 403 Account_is_locked), s2)
                  else
                    (let total_paid = sum_list (paid_amounts account);
                         remaining = total_amount account - total_paid
                     in if amount > remaining
                        then (Inl (HTTPException 400 Amount_exceeds_remaining), s2)
                        else (case db_add_paid_amount account_index amount s2 of
                                (Inl e, s3) \<Rightarrow> (Inl (Unhandled e), s3)
                              | (Inr _, s3) \<Rightarrow> (Inr (Redirect No_cookie), s3))))))"

definition toggle_lock :: "int \<Rightarrow> str option \<Rightarrow> datetime \<Rightarrow> database \<Rightarrow> outcome" where
  "toggle_lock account_index session_id now s =
     (case get_session session_id now s of
        (Inl e, s1) \<Rightarrow> (Inl e, s1)
      | (Inr None, s1) \<Rightarrow> (Inl (HTTPException 403 Not_logged_in), s1)
      | (Inr (Some session), s1) \<Rightarrow>
          (case db_get_all_accounts s1 of
             (accs, s2) \<Rightarrow>
               if account_index < 0 \<or> account_index \<ge> int (length accs)
               then (Inl (HTTPException 404 Account_does_not_exist), s2)
               else
                 (let account = heap s2 ! (accs ! nat account_index) in
                  if manager account \<noteq> username session
                  then (Inl (HTTPException 403 Only_own_account_lock), s2)
                  else (let new_lock_state = \<not> locked account
                        in case db_toggle_lock account_index new_lock_state s2 of
                             (Inl e, s3) \<Rightarrow> (Inl (Unhandled e), s3)
                           | (Inr _, s3) \<Rightarrow> (Inr (Redirect No_cookie), s3)))))"

definition delete_account :: "int \<Rightarrow> str option \<Rightarrow> datetime \<Rightarrow> database \<Rightarrow> outcome" where
  "delete_account account_index session_id now s =
     (case get_session session_id now s of
        (Inl e, s1) \<Rightarrow> (Inl e, s1)
      | (Inr None, s1) \<Rightarrow> (Inl (HTTPException 403 Not_logged_in), s1)
      | (Inr (Some session), s1) \<Rightarrow>
          (case db_get_all_accounts s1 of
             (accs, s2) \<Rightarrow>
               if account_index < 0 \<or> account_index \<ge> int (length accs)
               then (Inl (HTTPException 404 Account_does_not_exist), s2)
               else
                 (let account = heap s2 ! (accs ! nat account_index) in
                  if manager account \<noteq> username session \<and> \<not> is_viewer session
                  then (Inl (HTTPException 403 Only_own_account_delete), s2)
                  else (case db_delete_account account_index s2 of
                          (Inl e, s3) \<Rightarrow> (Inl (Unhandled e), s3)
                        | (Inr _, s3) \<Rightarrow> (Inr (Redirect No_cookie), s3)))))"

definition get_account_name :: "str \<Rightarrow> database \<Rightarrow> outcome" where
  "get_account_name acode s =
     (case map_of ACCOUNT_MAPPING acode of
        Some aname \<Rightarrow> (Inr (Account_name_json aname), s)
      | None \<Rightarrow> (Inl (HTTPException 404 Account_code_does_not_exist), s))"

text \<open>
  The public operations as requests, each with the clock readings and the fresh token
  its handler takes from the environment, and the store after a sequence of requests.
\<close>

datatype request =
    Get_index "str option" datetime datetime
  | Post_login str bool str datetime
  | Post_logout "str option"
  | Post_add_account str int "str option" datetime datetime
  | Post_add_payment int int "str option" datetime
  | Post_toggle_lock int "str option" datetime
  | Post_delete_account int "str option" datetime
  | Get_account_name str

fun handle :: "request \<Rightarrow> database \<Rightarrow> outcome" where
  "handle (Get_index c n1 n2) s = index c n1 n2 s"
| "handle (Post_login u v t n) s = login u v t n s"
| "handle (Post_logout c) s = logout c s"
| "handle (Post_add_account a t c n1 n2) s = add_account a t c n1 n2 s"
| "handle (Post_add_payment i a c n) s = add_payment i a c n s"
| "handle (Post_toggle_lock i c n) s = toggle_lock i c n s"
| "handle (Post_delete_account i c n) s = delete_account i c n s"
| "handle (Get_account_name a) s = get_account_name a s"

fun run :: "request list \<Rightarrow> database \<Rightarrow> database" where
  "run [] s = s"
| "run (q # qs) s = run qs (snd (handle q s))"


section \<open>Notions used by the statements\<close>

text \<open>What the loop of \<open>get_all_accounts\<close> makes of one dict.\<close>

definition with_remaining :: "account_dict \<Rightarrow> account_dict" where
  "with_remaining d =
     d\<lparr>remaining_amount := Some (total_amount d - sum_list (paid_amounts d))\<rparr>"

text \<open>
  The seven keys of \<open>AccountRecord\<close> in a dict, that is the dict without the key
  \<open>remaining_amount\<close>, and the ledger as the sequence of these records.
\<close>

definition AccountRecord_of :: "account_dict \<Rightarrow> account_dict" where
  "AccountRecord_of d = d\<lparr>remaining_amount := None\<rparr>"

definition account_records :: "database \<Rightarrow> account_dict list" where
  "account_records s = map (\<lambda>r. AccountRecord_of (heap s ! r)) (accounts s)"

text \<open>
  Every entry of \<open>Database.accounts\<close> refers to a dict of its own: the references are
  live and no two entries share a dict.
\<close>

definition store_ok :: "database \<Rightarrow> bool" where
  "store_ok s \<longleftrightarrow> (\<forall>r \<in> set (accounts s). r < length (heap s)) \<and> distinct (accounts s)"

text \<open>\<open>save_data\<close> can write the accounts: every stored dict can be dumped.\<close>

definition accounts_dumpable :: "database \<Rightarrow> bool" where
  "accounts_dumpable s \<longleftrightarrow> list_all json_dumpable (map (\<lambda>r. heap s ! r) (accounts s))"

text \<open>
  Sample data: the users alice and bob, two tokens, the code 1001, and the store after
  alice has logged in (at time 0) and created an account of 1000 for the code 1001.
\<close>

definition alice :: str where
  "alice = [97, 108, 105, 99, 101]"

definition bob :: str where
  "bob = [98, 111, 98]"

definition token_a :: str where
  "token_a = [116, 49]"

definition token_b :: str where
  "token_b = [116, 50]"

definition code_1001 :: str where
  "code_1001 = [49, 48, 48, 49]"

definition name_1001 :: str where
  "name_1001 = [24179, 23433, 20445, 38505, 20859, 32769, 37329]"

definition alice_session :: UserSession where
  "alice_session = \<lparr>username = alice, is_viewer = False, login_time = 0\<rparr>"

definition alice_account :: account_dict where
  "alice_account =
     \<lparr>account_code = code_1001, account_name = name_1001, total_amount = 1000,
      manager = alice, created_time = 2, paid_amounts = [], locked = False,
      remaining_amount = None\<rparr>"

definition alice_requests :: "request list" where
  "alice_requests =
     [Post_login alice False token_a 0, Post_add_account code_1001 1000 (Some token_a) 1 2]"

definition alice_store :: database where
  "alice_store =
     \<lparr>heap = [alice_account], accounts = [0], sessions = [(token_a, alice_session)],
      data_file = Document [alice_account], sessions_file = Document [(token_a, alice_session)]\<rparr>"

text \<open>
  The store after bob and a viewer have logged in too.
\<close>

definition token_v :: str where
  "token_v = [116, 51]"

definition bob_session :: UserSession where
  "bob_session = \<lparr>username = bob, is_viewer = False, login_time = 3\<rparr>"

definition viewer_session :: UserSession where
  "viewer_session = \<lparr>username = viewer_name, is_viewer = True, login_time = 4\<rparr>"

definition team_requests :: "request list" where
  "team_requests =
     alice_requests @ [Post_login bob False token_b 3, Post_login [] True token_v 4]"

definition team_store :: database where
  "team_store =
     \<lparr>heap = [alice_account], accounts = [0],
      sessions = [(token_a, alice_session), (token_b, bob_session), (token_v, viewer_session)],
      data_file = Document [alice_account],
      sessions_file =
        Document [(token_a, alice_session), (token_b, bob_session), (token_v, viewer_session)]\<rparr>"

text \<open>
  The ledger operations of the specification, on the sequence of records: nothing, a
  record created for a non-viewer session of the store, a payment within the remaining
  amount, a lock flag set, a record removed.
\<close>

inductive records_step :: "database \<Rightarrow> account_dict list \<Rightarrow> account_dict list \<Rightarrow> bool"
  for s :: database where
    same: "records_step s L L"
  | created: "(sid, u) \<in> set (sessions s) \<Longrightarrow> \<not> is_viewer u \<Longrightarrow>
      records_step s L (L @ [AccountRecord_dict acode aname atotal (username u) now])"
  | paid: "n < length L \<Longrightarrow> amount \<le> total_amount (L ! n) - sum_list (paid_amounts (L ! n)) \<Longrightarrow>
      records_step s L (L[n := (L ! n)\<lparr>paid_amounts := paid_amounts (L ! n) @ [amount]\<rparr>])"
  | locked: "n < length L \<Longrightarrow> records_step s L (L[n := (L ! n)\<lparr>locked := b\<rparr>])"
  | deleted: "records_step s L (take n L @ drop (Suc n) L)"

text \<open>Every record that holds a payment has paid at most its total.\<close>

definition paid_within_total :: "account_dict list \<Rightarrow> bool" where
  "paid_within_total L \<longleftrightarrow>
     (\<forall>a \<in> set L. paid_amounts a \<noteq> [] \<longrightarrow> sum_list (paid_amounts a) \<le> total_amount a)"

text \<open>
  No record is managed under the viewer's name; the sessions under the viewer's name
  are the viewer sessions; a request that is not a login of a named user under the
  viewer's name.
\<close>

definition no_viewer_manager :: "account_dict list \<Rightarrow> bool" where
  "no_viewer_manager L \<longleftrightarrow> (\<forall>a \<in> set L. manager a \<noteq> viewer_name)"

definition viewer_sessions_ok :: "database \<Rightarrow> bool" where
  "viewer_sessions_ok s \<longleftrightarrow>
     (\<forall>p \<in> set (sessions s). is_viewer (snd p) = (username (snd p) = viewer_name))"

fun ordinary_login :: "request \<Rightarrow> bool" where
  "ordinary_login (Post_login u v t n) = (v \<or> strip u \<noteq> viewer_name)"
| "ordinary_login q = True"

text \<open>
  A user logs in under the viewer's name and creates an account, then a viewer logs in;
  and alice creates an account with a negative total and pays a negative amount.
\<close>

definition sentinel_requests :: "request list" where
  "sentinel_requests =
     [Post_login viewer_name False token_a 0,
      Post_add_account code_1001 1000 (Some token_a) 1 2,
      Post_login [] True token_v 4]"

definition sentinel_store :: database where
  "sentinel_store =
     \<lparr>heap = [alice_account\<lparr>manager := viewer_name\<rparr>], accounts = [0],
      sessions = [(token_a, \<lparr>username = viewer_name, is_viewer = False, login_time = 0\<rparr>),
                  (token_v, viewer_session)],
      data_file = Document [alice_account\<lparr>manager := viewer_name\<rparr>],
      sessions_file =
        Document [(token_a, \<lparr>username = viewer_name, is_viewer = False, login_time = 0\<rparr>),
              (token_v, viewer_session)]\<rparr>"

definition overdrawn_requests :: "request list" where
  "overdrawn_requests =
     [Post_login alice False token_a 0,
      Post_add_account code_1001 (- 5) (Some token_a) 1 2,
      Post_add_payment 0 (- 10) (Some token_a) 3]"

definition overdrawn_store :: database where
  "overdrawn_store =
     \<lparr>heap = [alice_account\<lparr>total_amount := - 5\<rparr>], accounts = [0],
      sessions = [(token_a, alice_session)],
      data_file = Document [alice_account\<lparr>total_amount := - 5\<rparr>],
      sessions_file = Document [(token_a, alice_session)]\<rparr>"

text \<open>
  The scenario of the specification: alice creates an account of 1000 and pays 400, a
  payment of 700 is rejected, she locks the account, bob's payment of 100 is refused and
  hers is accepted. \<open>responses\<close> lists what the handlers return on the way.
\<close>

definition scenario_requests :: "request list" where
  "scenario_requests =
     [Post_login alice False token_a 0,
      Post_add_account code_1001 1000 (Some token_a) 1 2,
      Post_add_payment 0 400 (Some token_a) 3,
      Post_add_payment 0 700 (Some token_a) 4,
      Post_toggle_lock 0 (Some token_a) 5,
      Post_login bob False token_b 6,
      Post_add_payment 0 100 (Some token_b) 7,
      Post_add_payment 0 100 (Some token_a) 8]"

fun responses :: "request list \<Rightarrow> database \<Rightarrow> (raised + response) list" where
  "responses [] s = []"
| "responses (q # qs) s = fst (handle q s) # responses qs (snd (handle q s))"

text \<open>
  A total of 4300 digits, the most that an int read from a form can have, and the store
  after alice has created an account of this total, paid its negative, and asked to
  lock an account that does not exist: the listing of this last call, refused with
  status 404, has written a remaining amount of 4301 digits into the stored dict.
\<close>

definition big :: int where
  "big = 9 * 10 ^ (max_str_digits - 1)"


definition big_store :: database where
  "big_store =
     \<lparr>heap = [alice_account\<lparr>total_amount := big, paid_amounts := [- big],
                              remaining_amount := Some (big + big)\<rparr>],
      accounts = [0],
      sessions = [(token_a, alice_session)],
      data_file = Document [alice_account\<lparr>total_amount := big, paid_amounts := [- big],
                                           remaining_amount := Some big\<rparr>],
      sessions_file = Document [(token_a, alice_session)]\<rparr>"

text \<open>
  A record created with a negative total beside a record that admits a payment.
\<close>

definition unpaid_requests :: "request list" where
  "unpaid_requests =
     [Post_login alice False token_a 0,
      Post_add_account code_1001 (- 5) (Some token_a) 1 2,
      Post_add_account code_1001 10 (Some token_a) 3 4,
      Post_add_payment 1 3 (Some token_a) 5]"




section \<open>The listing and the store\<close>

lemma set_remaining_nth:
  "q < length h \<Longrightarrow> set_remaining h r ! q = (if q = r then with_remaining (h ! q) else h ! q)"
  by (simp add: set_remaining_def with_remaining_def nth_list_update)

lemma length_set_remaining [simp]: "length (set_remaining h r) = length h"
  by (simp add: set_remaining_def)

lemma length_foldl_set_remaining [simp]: "length (foldl set_remaining h rs) = length h"
  by (induction rs arbitrary: h) simp_all

lemma with_remaining_idem [simp]: "with_remaining (with_remaining d) = with_remaining d"
  by (simp add: with_remaining_def)


text \<open>After the loop, exactly the dicts the list refers to carry their remaining amount.\<close>

lemma foldl_set_remaining_nth:
  "q < length h \<Longrightarrow>
   foldl set_remaining h rs ! q = (if q \<in> set rs then with_remaining (h ! q) else h ! q)"
proof (induction rs arbitrary: h)
  case Nil
  then show ?case by simp
next
  case (Cons r rs)
  have "q < length (set_remaining h r)" using Cons.prems by simp
  from Cons.IH [OF this] show ?case
    using Cons.prems by (simp add: set_remaining_nth)
qed

lemma AccountRecord_of_with_remaining [simp]:
  "AccountRecord_of (with_remaining d) = AccountRecord_of d"
  by (simp add: AccountRecord_of_def with_remaining_def)

lemma get_all_accounts_eq:
  "db_get_all_accounts s =
     (accounts s, s\<lparr>heap := foldl set_remaining (heap s) (accounts s)\<rparr>)"
  by (simp add: db_get_all_accounts_def Let_def)

lemma listing_frame:
  "accounts (snd (db_get_all_accounts s)) = accounts s \<and>
   sessions (snd (db_get_all_accounts s)) = sessions s \<and>
   data_file (snd (db_get_all_accounts s)) = data_file s \<and>
   sessions_file (snd (db_get_all_accounts s)) = sessions_file s"
  by (simp add: get_all_accounts_eq)


text \<open>
  The listing keeps the records: it changes no key of \<open>AccountRecord\<close> in any dict,
  and it keeps the entries apart.
\<close>

lemma get_all_accounts_records:
  "store_ok s \<Longrightarrow> account_records (snd (db_get_all_accounts s)) = account_records s"
  by (auto simp: account_records_def get_all_accounts_eq store_ok_def foldl_set_remaining_nth)

lemma get_all_accounts_store_ok:
  "store_ok s \<Longrightarrow> store_ok (snd (db_get_all_accounts s))"
  by (simp add: store_ok_def get_all_accounts_eq)

lemma listed_account:
  assumes "store_ok s" and "n < length (accounts s)"
  shows "heap (snd (db_get_all_accounts s)) ! (accounts s ! n) = with_remaining (account_at s n)"
proof -
  have "accounts s ! n \<in> set (accounts s)" using assms(2) by simp
  moreover from this assms(1) have "accounts s ! n < length (heap s)" by (simp add: store_ok_def)
  ultimately show ?thesis
    by (simp add: get_all_accounts_eq foldl_set_remaining_nth account_at_def)
qed

lemma account_records_nth:
  "n < length (accounts s) \<Longrightarrow> account_records s ! n = AccountRecord_of (account_at s n)"
  by (simp add: account_records_def account_at_def)

lemma length_account_records [simp]: "length (account_records s) = length (accounts s)"
  by (simp add: account_records_def)


text \<open>What depends on the dicts and the list only is kept by what changes neither.\<close>

lemma account_records_frame:
  "heap s' = heap s \<Longrightarrow> accounts s' = accounts s \<Longrightarrow> account_records s' = account_records s"
  by (simp add: account_records_def)

lemma store_ok_frame:
  "heap s' = heap s \<Longrightarrow> accounts s' = accounts s \<Longrightarrow> store_ok s' = store_ok s"
  by (simp add: store_ok_def)

lemma accounts_dumpable_frame:
  "heap s' = heap s \<Longrightarrow> accounts s' = accounts s \<Longrightarrow> accounts_dumpable s' = accounts_dumpable s"
  by (simp add: accounts_dumpable_def)


text \<open>
  \<open>save_data\<close> changes the documents only. It writes both if the accounts can be
  dumped; otherwise it raises and leaves the accounts document unreadable.
\<close>

lemma save_data_frame [simp]:
  "heap (snd (db_save_data s)) = heap s" "accounts (snd (db_save_data s)) = accounts s"
  "sessions (snd (db_save_data s)) = sessions s"
  by (simp_all add: db_save_data_def)

lemma save_data_eq:
  "db_save_data s =
     (if accounts_dumpable s
      then (Inr (), s\<lparr>data_file := Document (map (\<lambda>r. heap s ! r) (accounts s)),
                     sessions_file := Document (sessions s)\<rparr>)
      else (Inl ValueError, s\<lparr>data_file := Unreadable\<rparr>))"
  by (simp add: db_save_data_def accounts_dumpable_def)

lemma save_data_dumpable [simp]:
  "accounts_dumpable (snd (db_save_data s)) = accounts_dumpable s"
  by (rule accounts_dumpable_frame) simp_all

lemma save_data_records [simp]: "account_records (snd (db_save_data s)) = account_records s"
  by (rule account_records_frame) simp_all

lemma save_data_store_ok [simp]: "store_ok (snd (db_save_data s)) = store_ok s"
  by (rule store_ok_frame) simp_all

lemma save_data_fst:
  "fst (db_save_data s) = (if accounts_dumpable s then Inr () else Inl ValueError)"
  by (simp add: save_data_eq)

lemma save_data_files:
  "data_file (snd (db_save_data s))
     = (if accounts_dumpable s then Document (map (\<lambda>r. heap s ! r) (accounts s)) else Unreadable)"
  "sessions_file (snd (db_save_data s))
     = (if accounts_dumpable s then Document (sessions s) else sessions_file s)"
  by (simp_all add: save_data_eq)


text \<open>The methods of the store, on the records.\<close>

lemma add_paid_amount_eq:
  "0 \<le> idx \<Longrightarrow> idx < int (length (accounts s)) \<Longrightarrow>
   db_add_paid_amount idx amount s
     = db_save_data (s\<lparr>heap := (heap s)[accounts s ! nat idx := (heap s ! (accounts s ! nat idx))
          \<lparr>paid_amounts := paid_amounts (heap s ! (accounts s ! nat idx)) @ [amount]\<rparr>]\<rparr>)"
  by (simp add: db_add_paid_amount_def Let_def)

lemma toggle_lock_eq:
  "0 \<le> idx \<Longrightarrow> idx < int (length (accounts s)) \<Longrightarrow>
   db_toggle_lock idx b s
     = db_save_data (s\<lparr>heap := (heap s)[accounts s ! nat idx :=
          (heap s ! (accounts s ! nat idx))\<lparr>locked := b\<rparr>]\<rparr>)"
  by (simp add: db_toggle_lock_def Let_def)

lemma delete_account_eq:
  "0 \<le> idx \<Longrightarrow> idx < int (length (accounts s)) \<Longrightarrow>
   db_delete_account idx s
     = db_save_data (s\<lparr>accounts := take (nat idx) (accounts s) @ drop (Suc (nat idx)) (accounts s)\<rparr>)"
  by (simp add: db_delete_account_def)

lemma add_paid_amount_records:
  assumes "store_ok s" and "0 \<le> idx" and "idx < int (length (accounts s))"
  shows "account_records (snd (db_add_paid_amount idx amount s)) =
         (account_records s)[nat idx := (account_records s ! nat idx)
            \<lparr>paid_amounts := paid_amounts (account_records s ! nat idx) @ [amount]\<rparr>]"
proof (rule nth_equalityI)
  show "length (account_records (snd (db_add_paid_amount idx amount s))) =
        length ((account_records s)[nat idx := (account_records s ! nat idx)
            \<lparr>paid_amounts := paid_amounts (account_records s ! nat idx) @ [amount]\<rparr>])"
    using assms by (simp add: add_paid_amount_eq)
next
  fix n assume "n < length (account_records (snd (db_add_paid_amount idx amount s)))"
  then have n: "n < length (accounts s)"
    using assms by (simp add: add_paid_amount_eq)
  have i: "nat idx < length (accounts s)" using assms by simp
  have valid: "accounts s ! n < length (heap s)" "accounts s ! nat idx < length (heap s)"
    using assms(1) n i by (simp_all add: store_ok_def)
  have eq: "accounts s ! nat idx = accounts s ! n \<longleftrightarrow> nat idx = n"
    using assms(1) n i by (simp add: store_ok_def nth_eq_iff_index_eq)
  show "account_records (snd (db_add_paid_amount idx amount s)) ! n =
        (account_records s)[nat idx := (account_records s ! nat idx)
            \<lparr>paid_amounts := paid_amounts (account_records s ! nat idx) @ [amount]\<rparr>] ! n"
    using assms n i valid eq
    by (simp add: add_paid_amount_eq account_records_def nth_list_update AccountRecord_of_def)
qed

lemma toggle_lock_records:
  assumes "store_ok s" and "0 \<le> idx" and "idx < int (length (accounts s))"
  shows "account_records (snd (db_toggle_lock idx b s)) =
         (account_records s)[nat idx := (account_records s ! nat idx)\<lparr>locked := b\<rparr>]"
proof (rule nth_equalityI)
  show "length (account_records (snd (db_toggle_lock idx b s))) =
        length ((account_records s)[nat idx := (account_records s ! nat idx)\<lparr>locked := b\<rparr>])"
    using assms by (simp add: toggle_lock_eq)
next
  fix n assume "n < length (account_records (snd (db_toggle_lock idx b s)))"
  then have n: "n < length (accounts s)"
    using assms by (simp add: toggle_lock_eq)
  have i: "nat idx < length (accounts s)" using assms by simp
  have valid: "accounts s ! n < length (heap s)" "accounts s ! nat idx < length (heap s)"
    using assms(1) n i by (simp_all add: store_ok_def)
  have eq: "accounts s ! nat idx = accounts s ! n \<longleftrightarrow> nat idx = n"
    using assms(1) n i by (simp add: store_ok_def nth_eq_iff_index_eq)
  show "account_records (snd (db_toggle_lock idx b s)) ! n =
        (account_records s)[nat idx := (account_records s ! nat idx)\<lparr>locked := b\<rparr>] ! n"
    using assms n i valid eq
    by (simp add: toggle_lock_eq account_records_def nth_list_update AccountRecord_of_def)
qed

lemma delete_account_records:
  assumes "0 \<le> idx" and "idx < int (length (accounts s))"
  shows "account_records (snd (db_delete_account idx s)) =
         take (nat idx) (account_records s) @ drop (Suc (nat idx)) (account_records s)"
  using assms by (simp add: delete_account_eq account_records_def take_map drop_map)

lemma AccountRecord_of_new [simp]:
  "AccountRecord_of (AccountRecord_dict a b t m n) = AccountRecord_dict a b t m n"
  by (simp add: AccountRecord_of_def AccountRecord_dict_def)

lemma add_account_records:
  assumes "store_ok s"
  shows "account_records (snd (db_add_account d s)) = account_records s @ [AccountRecord_of d]"
  using assms by (auto simp: db_add_account_def account_records_def store_ok_def nth_append)

lemma add_paid_amount_store_ok:
  "store_ok s \<Longrightarrow> store_ok (snd (db_add_paid_amount idx amount s))"
  by (simp add: db_add_paid_amount_def store_ok_def Let_def)

lemma toggle_lock_store_ok: "store_ok s \<Longrightarrow> store_ok (snd (db_toggle_lock idx b s))"
  by (simp add: db_toggle_lock_def store_ok_def Let_def)

lemma delete_account_store_ok: "store_ok s \<Longrightarrow> store_ok (snd (db_delete_account idx s))"
proof -
  assume ok: "store_ok s"
  let ?xs = "accounts s" and ?n = "nat idx"
  have "set (take ?n ?xs @ drop (Suc ?n) ?xs) \<subseteq> set ?xs"
    by (auto dest: in_set_takeD in_set_dropD)
  moreover have "distinct (take ?n ?xs @ drop (Suc ?n) ?xs)"
    using ok by (simp add: store_ok_def set_take_disj_set_drop_if_distinct)
  ultimately show ?thesis using ok
    by (auto simp: db_delete_account_def store_ok_def)
qed

lemma add_account_store_ok: "store_ok s \<Longrightarrow> store_ok (snd (db_add_account d s))"
  by (auto simp: db_add_account_def store_ok_def less_Suc_eq)


text \<open>
  A method of the store that reaches \<open>save_data\<close> returns what the save returns: told
  from the store it leaves, the documents are written if its accounts can be dumped.
\<close>

lemma add_paid_amount_saved:
  assumes "0 \<le> i" and "i < int (length (accounts s))"
  shows "fst (db_add_paid_amount i amount s)
           = (if accounts_dumpable (snd (db_add_paid_amount i amount s)) then Inr ()
              else Inl ValueError)"
    and "data_file (snd (db_add_paid_amount i amount s))
           = (if accounts_dumpable (snd (db_add_paid_amount i amount s))
              then Document (map (\<lambda>q. heap (snd (db_add_paid_amount i amount s)) ! q)
                                 (accounts (snd (db_add_paid_amount i amount s))))
              else Unreadable)"
    and "sessions_file (snd (db_add_paid_amount i amount s))
           = (if accounts_dumpable (snd (db_add_paid_amount i amount s))
              then Document (sessions s) else sessions_file s)"
    and "sessions (snd (db_add_paid_amount i amount s)) = sessions s"
    and "accounts (snd (db_add_paid_amount i amount s)) = accounts s"
  using assms by (simp_all add: add_paid_amount_eq save_data_fst save_data_files)

lemma toggle_lock_saved:
  assumes "0 \<le> i" and "i < int (length (accounts s))"
  shows "fst (db_toggle_lock i b s)
           = (if accounts_dumpable (snd (db_toggle_lock i b s)) then Inr () else Inl ValueError)"
    and "data_file (snd (db_toggle_lock i b s))
           = (if accounts_dumpable (snd (db_toggle_lock i b s))
              then Document (map (\<lambda>q. heap (snd (db_toggle_lock i b s)) ! q)
                                 (accounts (snd (db_toggle_lock i b s))))
              else Unreadable)"
    and "sessions_file (snd (db_toggle_lock i b s))
           = (if accounts_dumpable (snd (db_toggle_lock i b s))
              then Document (sessions s) else sessions_file s)"
    and "sessions (snd (db_toggle_lock i b s)) = sessions s"
    and "accounts (snd (db_toggle_lock i b s)) = accounts s"
  using assms by (simp_all add: toggle_lock_eq save_data_fst save_data_files)

lemma delete_account_saved:
  assumes "0 \<le> i" and "i < int (length (accounts s))"
  shows "fst (db_delete_account i s)
           = (if accounts_dumpable (snd (db_delete_account i s)) then Inr () else Inl ValueError)"
    and "data_file (snd (db_delete_account i s))
           = (if accounts_dumpable (snd (db_delete_account i s))
              then Document (map (\<lambda>q. heap (snd (db_delete_account i s)) ! q)
                                 (accounts (snd (db_delete_account i s))))
              else Unreadable)"
    and "sessions_file (snd (db_delete_account i s))
           = (if accounts_dumpable (snd (db_delete_account i s))
              then Document (sessions s) else sessions_file s)"
    and "sessions (snd (db_delete_account i s)) = sessions s"
  using assms by (simp_all add: delete_account_eq save_data_fst save_data_files)

lemma add_account_saved:
  "fst (db_add_account d s)
     = (if accounts_dumpable (snd (db_add_account d s)) then Inr () else Inl ValueError)"
  "data_file (snd (db_add_account d s))
     = (if accounts_dumpable (snd (db_add_account d s))
        then Document (map (\<lambda>q. heap (snd (db_add_account d s)) ! q)
                           (accounts (snd (db_add_account d s))))
        else Unreadable)"
  "sessions_file (snd (db_add_account d s))
     = (if accounts_dumpable (snd (db_add_account d s))
        then Document (sessions s) else sessions_file s)"
  "sessions (snd (db_add_account d s)) = sessions s"
  "heap (snd (db_add_account d s)) = heap s @ [d]"
  "accounts (snd (db_add_account d s)) = accounts s @ [length (heap s)]"
  by (simp_all add: db_add_account_def save_data_fst save_data_files)



section \<open>The handlers under a resolved session\<close>

text \<open>
  A handler passes on the exception of a save, and returns its response after a save
  that succeeds.
\<close>

lemma returning:
  "(case r of (Inl e, s) \<Rightarrow> (Inl (Unhandled e), s) | (Inr x, s) \<Rightarrow> (Inr res, s))
     = ((case fst r of Inl e \<Rightarrow> Inl (Unhandled e) | Inr x \<Rightarrow> Inr res), snd r)"
  by (auto split: prod.splits sum.splits)


text \<open>A session that \<open>get_session\<close> returns leaves the store as it is.\<close>

lemma get_session_frame:
  "heap (snd (get_session c now s)) = heap s \<and> accounts (snd (get_session c now s)) = accounts s"
  by (simp add: get_session_def returning split: option.splits)

lemma get_session_resolved:
  assumes "fst (get_session c now s) = Inr (Some u)"
  shows "get_session c now s = (Inr (Some u), s)"
    and "\<exists>sid. c = Some sid \<and> sid \<noteq> [] \<and> map_of (sessions s) sid = Some u
            \<and> now - login_time u < timedelta_hours 24"
  using assms
  by (auto simp: get_session_def returning split: option.splits if_splits sum.splits)

lemma get_session_member:
  "fst (get_session c now s) = Inr (Some u) \<Longrightarrow> \<exists>sid. (sid, u) \<in> set (sessions s)"
  using get_session_resolved(2) [of c now s u] by (auto dest: map_of_SomeD)


text \<open>
  With the session resolved and the index in range, each handler is its chain of
  checks on the stored account, run on the store that the listing has written.
\<close>

lemma add_payment_resolved:
  assumes "fst (get_session c now s) = Inr (Some u)" and "store_ok s"
    and "0 \<le> i" and "i < int (length (accounts s))"
  shows "add_payment i amount c now s =
     (if locked (account_at s (nat i)) \<and> manager (account_at s (nat i)) \<noteq> username u
      then (Inl (HTTPException 403 Account_is_locked), snd (db_get_all_accounts s))
      else if amount > total_amount (account_at s (nat i))
                         - sum_list (paid_amounts (account_at s (nat i)))
      then (PaymentExceedsRemaining, snd (db_get_all_accounts s))
      else (if accounts_dumpable (snd (db_add_paid_amount i amount (snd (db_get_all_accounts s))))
            then Inr (Redirect No_cookie) else Inl (Unhandled ValueError),
            snd (db_add_paid_amount i amount (snd (db_get_all_accounts s)))))"
proof -
  let ?s2 = "snd (db_get_all_accounts s)"
  have n: "nat i < length (accounts s)" using assms(3,4) by simp
  have a: "heap ?s2 ! (accounts s ! nat i) = with_remaining (account_at s (nat i))"
    by (rule listed_account [OF assms(2) n])
  have i2: "i < int (length (accounts ?s2))" using assms(4) by (simp add: listing_frame)
  note sv = add_paid_amount_saved(1) [OF assms(3) i2, of amount]
  have g: "get_session c now s = (Inr (Some u), s)"
    by (rule get_session_resolved(1) [OF assms(1)])
  have l: "fst (db_get_all_accounts s) = accounts s" by (simp add: get_all_accounts_eq)
  show ?thesis
    using assms(3,4) a
    by (simp add: add_payment_def g l case_prod_beta Let_def with_remaining_def PaymentExceedsRemaining_def
        returning sv)
qed

lemma toggle_lock_resolved:
  assumes "fst (get_session c now s) = Inr (Some u)" and "store_ok s"
    and "0 \<le> i" and "i < int (length (accounts s))"
  shows "toggle_lock i c now s =
     (if manager (account_at s (nat i)) \<noteq> username u
      then (Inl (HTTPException 403 Only_own_account_lock), snd (db_get_all_accounts s))
      else (if accounts_dumpable
                 (snd (db_toggle_lock i (\<not> locked (account_at s (nat i))) (snd (db_get_all_accounts s))))
            then Inr (Redirect No_cookie) else Inl (Unhandled ValueError),
            snd (db_toggle_lock i (\<not> locked (account_at s (nat i))) (snd (db_get_all_accounts s)))))"
proof -
  let ?s2 = "snd (db_get_all_accounts s)"
  have n: "nat i < length (accounts s)" using assms(3,4) by simp
  have a: "heap ?s2 ! (accounts s ! nat i) = with_remaining (account_at s (nat i))"
    by (rule listed_account [OF assms(2) n])
  have i2: "i < int (length (accounts ?s2))" using assms(4) by (simp add: listing_frame)
  note sv = toggle_lock_saved(1) [OF assms(3) i2]
  have g: "get_session c now s = (Inr (Some u), s)"
    by (rule get_session_resolved(1) [OF assms(1)])
  have l: "fst (db_get_all_accounts s) = accounts s" by (simp add: get_all_accounts_eq)
  show ?thesis
    using assms(3,4) a
    by (simp add: toggle_lock_def g l case_prod_beta Let_def with_remaining_def returning sv)
qed

lemma delete_account_resolved:
  assumes "fst (get_session c now s) = Inr (Some u)" and "store_ok s"
    and "0 \<le> i" and "i < int (length (accounts s))"
  shows "delete_account i c now s =
     (if manager (account_at s (nat i)) \<noteq> username u \<and> \<not> is_viewer u
      then (Inl (HTTPException 403 Only_own_account_delete), snd (db_get_all_accounts s))
      else (if accounts_dumpable (snd (db_delete_account i (snd (db_get_all_accounts s))))
            then Inr (Redirect No_cookie) else Inl (Unhandled ValueError),
            snd (db_delete_account i (snd (db_get_all_accounts s)))))"
proof -
  let ?s2 = "snd (db_get_all_accounts s)"
  have n: "nat i < length (accounts s)" using assms(3,4) by simp
  have a: "heap ?s2 ! (accounts s ! nat i) = with_remaining (account_at s (nat i))"
    by (rule listed_account [OF assms(2) n])
  have i2: "i < int (length (accounts ?s2))" using assms(4) by (simp add: listing_frame)
  note sv = delete_account_saved(1) [OF assms(3) i2]
  have g: "get_session c now s = (Inr (Some u), s)"
    by (rule get_session_resolved(1) [OF assms(1)])
  have l: "fst (db_get_all_accounts s) = accounts s" by (simp add: get_all_accounts_eq)
  show ?thesis
    using assms(3,4) a
    by (simp add: delete_account_def g l case_prod_beta Let_def with_remaining_def returning sv)
qed

lemma add_account_resolved:
  assumes "fst (get_session c now1 s) = Inr (Some u)"
  shows "add_account acode atotal c now1 now2 s =
     (if is_viewer u then (Inl (HTTPException 403 Viewer_cannot_add_account), s)
      else case map_of ACCOUNT_MAPPING acode of
             None \<Rightarrow> (InvalidCode, s)
           | Some aname \<Rightarrow>
               (if accounts_dumpable
                     (snd (db_add_account (AccountRecord_dict acode aname atotal (username u) now2) s))
                then Inr (Redirect No_cookie) else Inl (Unhandled ValueError),
                snd (db_add_account (AccountRecord_dict acode aname atotal (username u) now2) s)))"
proof -
  have "get_session c now1 s = (Inr (Some u), s)" by (rule get_session_resolved(1) [OF assms(1)])
  then show ?thesis
    by (simp add: add_account_def InvalidCode_def returning add_account_saved(1)
        split: option.splits)
qed


text \<open>
  Without a session a handler raises and leaves the store as \<open>get_session\<close> left it;
  with an index out of range it raises after the listing.
\<close>

lemma add_payment_unresolved:
  assumes "\<And>u. fst (get_session c now s) \<noteq> Inr (Some u)"
  shows "snd (add_payment i amount c now s) = snd (get_session c now s)
         \<and> (\<exists>e. fst (add_payment i amount c now s) = Inl e)"
  using assms
  by (cases "get_session c now s") (auto simp: add_payment_def split: sum.splits option.splits)

lemma toggle_lock_unresolved:
  assumes "\<And>u. fst (get_session c now s) \<noteq> Inr (Some u)"
  shows "snd (toggle_lock i c now s) = snd (get_session c now s)
         \<and> (\<exists>e. fst (toggle_lock i c now s) = Inl e)"
  using assms
  by (cases "get_session c now s") (auto simp: toggle_lock_def split: sum.splits option.splits)

lemma delete_account_unresolved:
  assumes "\<And>u. fst (get_session c now s) \<noteq> Inr (Some u)"
  shows "snd (delete_account i c now s) = snd (get_session c now s)
         \<and> (\<exists>e. fst (delete_account i c now s) = Inl e)"
  using assms
  by (cases "get_session c now s") (auto simp: delete_account_def split: sum.splits option.splits)

lemma add_account_unresolved:
  assumes "\<And>u. fst (get_session c now1 s) \<noteq> Inr (Some u)"
  shows "snd (add_account acode atotal c now1 now2 s) = snd (get_session c now1 s)
         \<and> (\<exists>e. fst (add_account acode atotal c now1 now2 s) = Inl e)"
  using assms
  by (cases "get_session c now1 s") (auto simp: add_account_def split: sum.splits option.splits)

lemma add_payment_out_of_range:
  "fst (get_session c now s) = Inr (Some u) \<Longrightarrow> i < 0 \<or> int (length (accounts s)) \<le> i \<Longrightarrow>
   add_payment i amount c now s
     = (Inl (HTTPException 404 Account_does_not_exist), snd (db_get_all_accounts s))"
  by (auto simp: add_payment_def get_session_resolved(1) get_all_accounts_eq)

lemma toggle_lock_out_of_range:
  "fst (get_session c now s) = Inr (Some u) \<Longrightarrow> i < 0 \<or> int (length (accounts s)) \<le> i \<Longrightarrow>
   toggle_lock i c now s
     = (Inl (HTTPException 404 Account_does_not_exist), snd (db_get_all_accounts s))"
  by (auto simp: toggle_lock_def get_session_resolved(1) get_all_accounts_eq)

lemma delete_account_out_of_range:
  "fst (get_session c now s) = Inr (Some u) \<Longrightarrow> i < 0 \<or> int (length (accounts s)) \<le> i \<Longrightarrow>
   delete_account i c now s
     = (Inl (HTTPException 404 Account_does_not_exist), snd (db_get_all_accounts s))"
  by (auto simp: delete_account_def get_session_resolved(1) get_all_accounts_eq)

lemma add_payment_admitted:
  assumes "store_ok s" and "fst (add_payment i amount c now s) = Inr resp"
  shows "0 \<le> i \<and> i < int (length (accounts s))
         \<and> amount \<le> total_amount (account_at s (nat i)) - sum_list (paid_amounts (account_at s (nat i)))
         \<and> snd (add_payment i amount c now s)
             = snd (db_add_paid_amount i amount (snd (db_get_all_accounts s)))"
proof (cases "\<exists>u. fst (get_session c now s) = Inr (Some u)")
  case False
  then show ?thesis using assms(2) add_payment_unresolved [of c now s i amount] by auto
next
  case True
  then obtain u where Some: "fst (get_session c now s) = Inr (Some u)" ..
  show ?thesis
  proof (cases "i < 0 \<or> int (length (accounts s)) \<le> i")
    case True
    then show ?thesis using assms(2) by (simp add: add_payment_out_of_range [OF Some])
  next
    case False
    then have r: "0 \<le> i" "i < int (length (accounts s))" by simp_all
    show ?thesis
      using assms(2) r
      by (auto simp: add_payment_resolved [OF Some assms(1) r] PaymentExceedsRemaining_def
          split: if_splits)
  qed
qed



section \<open>Every request is a ledger operation\<close>

text \<open>Sessions are only ever removed, except by \<open>login\<close>.\<close>

lemma set_delete_subset: "set (AList.delete k al) \<subseteq> set al"
  by (auto simp: AList.delete_eq)

lemma set_update_subset: "set (AList.update k v al) \<subseteq> insert (k, v) (set al)"
  by (induction al) auto

lemma set_foldl_delete_subset:
  "set (foldl (\<lambda>ss k. AList.delete k ss) al ks) \<subseteq> set al"
proof (induction ks arbitrary: al)
  case Nil
  show ?case by simp
next
  case (Cons k ks)
  have "set (foldl (\<lambda>ss k. AList.delete k ss) (AList.delete k al) ks)
          \<subseteq> set (AList.delete k al)"
    by (rule Cons.IH)
  also have "\<dots> \<subseteq> set al" by (rule set_delete_subset)
  finally show ?case by simp
qed

lemma get_session_sessions:
  "set (sessions (snd (get_session c now s))) \<subseteq> set (sessions s)"
  using set_delete_subset [of _ "sessions s"]
  by (auto simp: get_session_def returning split: option.splits)

lemma cleanup_frame:
  "heap (snd (db_cleanup_expired_sessions now s)) = heap s \<and>
   accounts (snd (db_cleanup_expired_sessions now s)) = accounts s"
  by (simp add: db_cleanup_expired_sessions_def Let_def)

lemma cleanup_sessions:
  "set (sessions (snd (db_cleanup_expired_sessions now s))) \<subseteq> set (sessions s)"
  using set_foldl_delete_subset [of "sessions s"]
  by (simp add: db_cleanup_expired_sessions_def Let_def)

lemma get_session_store_ok: "store_ok (snd (get_session c now s)) = store_ok s"
  by (rule store_ok_frame) (simp_all add: get_session_frame)

lemma get_session_records: "account_records (snd (get_session c now s)) = account_records s"
  by (rule account_records_frame) (simp_all add: get_session_frame)

lemma login_frame:
  "heap (snd (login un v t now s)) = heap s \<and> accounts (snd (login un v t now s)) = accounts s"
  by (simp add: login_def Let_def returning)

lemma login_sessions:
  "sessions (snd (login un v t now s)) = sessions s
   \<or> (v \<and> sessions (snd (login un v t now s))
            = AList.update t \<lparr>username = viewer_name, is_viewer = True, login_time = now\<rparr>
                (sessions s))
   \<or> (\<not> v \<and> strip un \<noteq> []
        \<and> sessions (snd (login un v t now s))
            = AList.update t \<lparr>username = strip un, is_viewer = False, login_time = now\<rparr>
                (sessions s))"
  by (simp add: login_def Let_def returning)

lemma logout_frame:
  "heap (snd (logout c s)) = heap s \<and> accounts (snd (logout c s)) = accounts s"
  by (simp add: logout_def returning split: option.splits)

lemma logout_sessions: "set (sessions (snd (logout c s))) \<subseteq> set (sessions s)"
  using set_delete_subset [of _ "sessions s"]
  by (auto simp: logout_def returning split: option.splits)


text \<open>
  Each handler keeps the entries of the store apart, acts on the records as one ledger
  operation, and adds no session, whether its save succeeds or not.
\<close>

lemma add_payment_step:
  assumes "store_ok s"
  shows "store_ok (snd (add_payment i amount c now s))
         \<and> records_step s (account_records s) (account_records (snd (add_payment i amount c now s)))
         \<and> set (sessions (snd (add_payment i amount c now s))) \<subseteq> set (sessions s)"
proof (cases "\<exists>u. fst (get_session c now s) = Inr (Some u)")
  case False
  then have "snd (add_payment i amount c now s) = snd (get_session c now s)"
    using add_payment_unresolved [of c now s] by auto
  then show ?thesis
    using assms
    by (simp add: get_session_store_ok get_session_records get_session_sessions
        records_step.same)
next
  case True
  then obtain u where Some: "fst (get_session c now s) = Inr (Some u)" ..
  let ?s2 = "snd (db_get_all_accounts s)"
  have ok2: "store_ok ?s2" by (rule get_all_accounts_store_ok [OF assms])
  have rec2: "account_records ?s2 = account_records s"
    by (rule get_all_accounts_records [OF assms])
  show ?thesis
  proof (cases "i < 0 \<or> int (length (accounts s)) \<le> i")
    case True
    then show ?thesis
      by (simp add: add_payment_out_of_range [OF Some] ok2 rec2 listing_frame records_step.same)
  next
    case False
    then have r: "0 \<le> i" "i < int (length (accounts s))" by simp_all
    then have r2: "i < int (length (accounts ?s2))" by (simp add: listing_frame)
    have n: "nat i < length (account_records s)" using r by simp
    have flds: "total_amount (account_records s ! nat i) = total_amount (account_at s (nat i))"
      "paid_amounts (account_records s ! nat i) = paid_amounts (account_at s (nat i))"
      using n by (simp_all add: account_records_nth AccountRecord_of_def)
    note unf = add_payment_resolved [OF Some assms r, of amount]
    note upd = add_paid_amount_records [OF ok2 r(1) r2, of amount]
    note per = add_paid_amount_saved(4,5) [OF r(1) r2, of amount]
    show ?thesis
    proof (cases "snd (add_payment i amount c now s) = ?s2")
      case True
      then show ?thesis by (simp add: ok2 rec2 listing_frame records_step.same)
    next
      case False
      then have adm: "amount \<le> total_amount (account_at s (nat i))
                                - sum_list (paid_amounts (account_at s (nat i)))"
        and st: "snd (add_payment i amount c now s) = snd (db_add_paid_amount i amount ?s2)"
        by (auto simp: unf split: if_splits)
      have "records_step s (account_records s)
              ((account_records s)[nat i := (account_records s ! nat i)
                 \<lparr>paid_amounts := paid_amounts (account_records s ! nat i) @ [amount]\<rparr>])"
        using n adm by (intro records_step.paid) (simp_all add: flds)
      then show ?thesis
        using upd per by (simp add: st rec2 listing_frame add_paid_amount_store_ok [OF ok2])
    qed
  qed
qed

lemma toggle_lock_step:
  assumes "store_ok s"
  shows "store_ok (snd (toggle_lock i c now s))
         \<and> records_step s (account_records s) (account_records (snd (toggle_lock i c now s)))
         \<and> set (sessions (snd (toggle_lock i c now s))) \<subseteq> set (sessions s)"
proof (cases "\<exists>u. fst (get_session c now s) = Inr (Some u)")
  case False
  then have "snd (toggle_lock i c now s) = snd (get_session c now s)"
    using toggle_lock_unresolved [of c now s] by auto
  then show ?thesis
    using assms
    by (simp add: get_session_store_ok get_session_records get_session_sessions
        records_step.same)
next
  case True
  then obtain u where Some: "fst (get_session c now s) = Inr (Some u)" ..
  let ?s2 = "snd (db_get_all_accounts s)"
  have ok2: "store_ok ?s2" by (rule get_all_accounts_store_ok [OF assms])
  have rec2: "account_records ?s2 = account_records s"
    by (rule get_all_accounts_records [OF assms])
  show ?thesis
  proof (cases "i < 0 \<or> int (length (accounts s)) \<le> i")
    case True
    then show ?thesis
      by (simp add: toggle_lock_out_of_range [OF Some] ok2 rec2 listing_frame records_step.same)
  next
    case False
    then have r: "0 \<le> i" "i < int (length (accounts s))" by simp_all
    then have r2: "i < int (length (accounts ?s2))" by (simp add: listing_frame)
    have n: "nat i < length (account_records s)" using r by simp
    let ?b = "\<not> locked (account_at s (nat i))"
    note unf = toggle_lock_resolved [OF Some assms r]
    note upd = toggle_lock_records [OF ok2 r(1) r2, of ?b]
    note per = toggle_lock_saved(4,5) [OF r(1) r2, of ?b]
    have step: "records_step s (account_records s)
              ((account_records s)[nat i := (account_records s ! nat i)\<lparr>locked := ?b\<rparr>])"
      using n by (rule records_step.locked)
    show ?thesis
      using upd per step
      by (simp add: unf ok2 rec2 listing_frame records_step.same toggle_lock_store_ok [OF ok2])
  qed
qed

lemma delete_account_step:
  assumes "store_ok s"
  shows "store_ok (snd (delete_account i c now s))
         \<and> records_step s (account_records s) (account_records (snd (delete_account i c now s)))
         \<and> set (sessions (snd (delete_account i c now s))) \<subseteq> set (sessions s)"
proof (cases "\<exists>u. fst (get_session c now s) = Inr (Some u)")
  case False
  then have "snd (delete_account i c now s) = snd (get_session c now s)"
    using delete_account_unresolved [of c now s] by auto
  then show ?thesis
    using assms
    by (simp add: get_session_store_ok get_session_records get_session_sessions
        records_step.same)
next
  case True
  then obtain u where Some: "fst (get_session c now s) = Inr (Some u)" ..
  let ?s2 = "snd (db_get_all_accounts s)"
  have ok2: "store_ok ?s2" by (rule get_all_accounts_store_ok [OF assms])
  have rec2: "account_records ?s2 = account_records s"
    by (rule get_all_accounts_records [OF assms])
  show ?thesis
  proof (cases "i < 0 \<or> int (length (accounts s)) \<le> i")
    case True
    then show ?thesis
      by (simp add: delete_account_out_of_range [OF Some] ok2 rec2 listing_frame
          records_step.same)
  next
    case False
    then have r: "0 \<le> i" "i < int (length (accounts s))" by simp_all
    then have r2: "i < int (length (accounts ?s2))" by (simp add: listing_frame)
    note unf = delete_account_resolved [OF Some assms r]
    note upd = delete_account_records [OF r(1) r2]
    note per = delete_account_saved(4) [OF r(1) r2]
    have step: "records_step s (account_records s)
              (take (nat i) (account_records s) @ drop (Suc (nat i)) (account_records s))"
      by (rule records_step.deleted)
    show ?thesis
      using upd per step
      by (simp add: unf ok2 rec2 listing_frame records_step.same delete_account_store_ok [OF ok2])
  qed
qed

lemma add_account_step:
  assumes "store_ok s"
  shows "store_ok (snd (add_account acode atotal c now1 now2 s))
         \<and> records_step s (account_records s)
              (account_records (snd (add_account acode atotal c now1 now2 s)))
         \<and> set (sessions (snd (add_account acode atotal c now1 now2 s))) \<subseteq> set (sessions s)"
proof (cases "\<exists>u. fst (get_session c now1 s) = Inr (Some u)")
  case False
  then have "snd (add_account acode atotal c now1 now2 s) = snd (get_session c now1 s)"
    using add_account_unresolved [of c now1 s] by auto
  then show ?thesis
    using assms
    by (simp add: get_session_store_ok get_session_records get_session_sessions
        records_step.same)
next
  case True
  then obtain u where Some: "fst (get_session c now1 s) = Inr (Some u)" ..
  from get_session_member [OF Some] obtain sid where mem: "(sid, u) \<in> set (sessions s)" ..
  note unf = add_account_resolved [OF Some, of acode atotal now2]
  show ?thesis
  proof (cases "is_viewer u")
    case True
    then show ?thesis using assms by (simp add: unf records_step.same)
  next
    case False
    show ?thesis
    proof (cases "map_of ACCOUNT_MAPPING acode")
      case None
      then show ?thesis using assms False by (simp add: unf records_step.same)
    next
      case aname: (Some aname)
      let ?d = "AccountRecord_dict acode aname atotal (username u) now2"
      have "records_step s (account_records s) (account_records s @ [?d])"
        using mem False by (rule records_step.created)
      then show ?thesis
        using assms False aname add_account_saved(4) [of ?d s]
        by (simp add: unf add_account_records add_account_store_ok)
    qed
  qed
qed

lemma index_step:
  assumes "store_ok s"
  shows "store_ok (snd (index c now1 now2 s))
         \<and> records_step s (account_records s) (account_records (snd (index c now1 now2 s)))
         \<and> set (sessions (snd (index c now1 now2 s))) \<subseteq> set (sessions s)"
proof -
  let ?s1 = "snd (db_cleanup_expired_sessions now1 s)"
  let ?s2 = "snd (get_session c now2 ?s1)"
  have ok1: "store_ok ?s1" using assms store_ok_frame [of ?s1 s] by (simp add: cleanup_frame)
  have rec1: "account_records ?s1 = account_records s"
    by (rule account_records_frame) (simp_all add: cleanup_frame)
  have ses1: "set (sessions ?s1) \<subseteq> set (sessions s)" by (rule cleanup_sessions)
  have ok2: "store_ok ?s2" using ok1 by (simp add: get_session_store_ok)
  have rec2: "account_records ?s2 = account_records s" by (simp add: get_session_records rec1)
  have ses2: "set (sessions ?s2) \<subseteq> set (sessions s)"
    using get_session_sessions [of c now2 ?s1] ses1 by blast
  have "snd (index c now1 now2 s) = ?s1 \<or> snd (index c now1 now2 s) = ?s2
        \<or> snd (index c now1 now2 s) = snd (db_get_all_accounts ?s2)"
    by (cases "db_cleanup_expired_sessions now1 s"; cases "get_session c now2 ?s1")
       (auto simp: index_def get_all_accounts_eq split: option.splits sum.splits)
  then show ?thesis
    using ok1 rec1 ses1 ok2 rec2 ses2
      get_all_accounts_store_ok [OF ok2] get_all_accounts_records [OF ok2]
    by (auto simp: listing_frame records_step.same)
qed

lemma handle_step:
  assumes "store_ok s"
  shows "store_ok (snd (handle q s))
         \<and> records_step s (account_records s) (account_records (snd (handle q s)))"
proof (cases q)
  case (Get_index c n1 n2)
  then show ?thesis using index_step [OF assms] by simp
next
  case (Post_login un v t n)
  have "store_ok (snd (login un v t n s)) = store_ok s"
    by (rule store_ok_frame) (simp_all add: login_frame)
  moreover have "account_records (snd (login un v t n s)) = account_records s"
    by (rule account_records_frame) (simp_all add: login_frame)
  ultimately show ?thesis using assms Post_login by (simp add: records_step.same)
next
  case (Post_logout c)
  have "store_ok (snd (logout c s)) = store_ok s"
    by (rule store_ok_frame) (simp_all add: logout_frame)
  moreover have "account_records (snd (logout c s)) = account_records s"
    by (rule account_records_frame) (simp_all add: logout_frame)
  ultimately show ?thesis using assms Post_logout by (simp add: records_step.same)
next
  case (Post_add_account a t c n1 n2)
  then show ?thesis using add_account_step [OF assms] by simp
next
  case (Post_add_payment i a c n)
  then show ?thesis using add_payment_step [OF assms] by simp
next
  case (Post_toggle_lock i c n)
  then show ?thesis using toggle_lock_step [OF assms] by simp
next
  case (Post_delete_account i c n)
  then show ?thesis using delete_account_step [OF assms] by simp
next
  case (Get_account_name a)
  then show ?thesis
    using assms by (simp add: get_account_name_def records_step.same split: option.splits)
qed


text \<open>The ledger operations keep the two properties of the records.\<close>

lemma records_step_paid:
  assumes "records_step s L L'" and "paid_within_total L"
  shows "paid_within_total L'"
  using assms
proof (cases rule: records_step.cases)
  case same
  then show ?thesis using assms(2) by simp
next
  case (created sid u acode aname atotal now)
  then show ?thesis
    using assms(2) by (simp add: paid_within_total_def AccountRecord_dict_def)
next
  case (paid n amount)
  have "set L' \<subseteq> insert ((L ! n)\<lparr>paid_amounts := paid_amounts (L ! n) @ [amount]\<rparr>) (set L)"
    unfolding paid(1) by (rule set_update_subset_insert)
  then show ?thesis
    using assms(2) paid(3) by (auto simp: paid_within_total_def)
next
  case (locked n b)
  have "set L' \<subseteq> insert ((L ! n)\<lparr>locked := b\<rparr>) (set L)"
    unfolding locked(1) by (rule set_update_subset_insert)
  moreover have "L ! n \<in> set L" using locked(2) by simp
  ultimately show ?thesis
    using assms(2) by (auto simp: paid_within_total_def)
next
  case (deleted n)
  then show ?thesis
    using assms(2) by (auto simp: paid_within_total_def dest: in_set_takeD in_set_dropD)
qed

lemma records_step_manager:
  assumes "records_step s L L'" and "no_viewer_manager L" and "viewer_sessions_ok s"
  shows "no_viewer_manager L'"
  using assms(1)
proof (cases rule: records_step.cases)
  case same
  then show ?thesis using assms(2) by simp
next
  case (created sid u acode aname atotal now)
  from created(2,3) assms(3) have "username u \<noteq> viewer_name"
    by (auto simp: viewer_sessions_ok_def)
  then show ?thesis
    using assms(2) created(1) by (simp add: no_viewer_manager_def AccountRecord_dict_def)
next
  case (paid n amount)
  have "set L' \<subseteq> insert ((L ! n)\<lparr>paid_amounts := paid_amounts (L ! n) @ [amount]\<rparr>) (set L)"
    unfolding paid(1) by (rule set_update_subset_insert)
  moreover have "L ! n \<in> set L" using paid(2) by simp
  ultimately show ?thesis
    using assms(2) by (auto simp: no_viewer_manager_def)
next
  case (locked n b)
  have "set L' \<subseteq> insert ((L ! n)\<lparr>locked := b\<rparr>) (set L)"
    unfolding locked(1) by (rule set_update_subset_insert)
  moreover have "L ! n \<in> set L" using locked(2) by simp
  ultimately show ?thesis
    using assms(2) by (auto simp: no_viewer_manager_def)
next
  case (deleted n)
  then show ?thesis
    using assms(2) by (auto simp: no_viewer_manager_def dest: in_set_takeD in_set_dropD)
qed

lemma viewer_sessions_ok_subset:
  "viewer_sessions_ok s \<Longrightarrow> set (sessions s') \<subseteq> set (sessions s) \<Longrightarrow> viewer_sessions_ok s'"
  by (auto simp: viewer_sessions_ok_def)

lemma login_sessions_ok:
  assumes "viewer_sessions_ok s" and "v \<or> strip un \<noteq> viewer_name"
  shows "viewer_sessions_ok (snd (login un v t n s))"
proof -
  have "set (AList.update t u (sessions s)) \<subseteq> insert (t, u) (set (sessions s))" for u
    by (rule set_update_subset)
  then show ?thesis
    using assms login_sessions [of un v t n s]
    by (fastforce simp: viewer_sessions_ok_def)
qed

lemma handle_sessions_ok:
  assumes "viewer_sessions_ok s" and "ordinary_login q" and "store_ok s"
  shows "viewer_sessions_ok (snd (handle q s))"
proof (cases q)
  case (Get_index c n1 n2)
  then show ?thesis
    using index_step [OF assms(3)] viewer_sessions_ok_subset [OF assms(1)] by simp
next
  case (Post_login un v t n)
  then show ?thesis using login_sessions_ok [OF assms(1)] assms(2) by simp
next
  case (Post_logout c)
  then show ?thesis using logout_sessions viewer_sessions_ok_subset [OF assms(1)] by simp
next
  case (Post_add_account a t c n1 n2)
  then show ?thesis
    using add_account_step [OF assms(3)] viewer_sessions_ok_subset [OF assms(1)] by simp
next
  case (Post_add_payment i a c n)
  then show ?thesis
    using add_payment_step [OF assms(3)] viewer_sessions_ok_subset [OF assms(1)] by simp
next
  case (Post_toggle_lock i c n)
  then show ?thesis
    using toggle_lock_step [OF assms(3)] viewer_sessions_ok_subset [OF assms(1)] by simp
next
  case (Post_delete_account i c n)
  then show ?thesis
    using delete_account_step [OF assms(3)] viewer_sessions_ok_subset [OF assms(1)] by simp
next
  case (Get_account_name a)
  then show ?thesis using assms(1) by (simp add: get_account_name_def split: option.splits)
qed

lemma run_append: "run (qs @ qs') s = run qs' (run qs s)"
  by (induction qs arbitrary: s) simp_all

lemma run_store_ok: "store_ok s \<Longrightarrow> store_ok (run qs s)"
  by (induction qs arbitrary: s) (simp_all add: handle_step)

lemma run_paid_within_total:
  "store_ok s \<Longrightarrow> paid_within_total (account_records s) \<Longrightarrow>
   paid_within_total (account_records (run qs s))"
proof (induction qs arbitrary: s)
  case Nil
  then show ?case by simp
next
  case (Cons q qs)
  from handle_step [OF Cons.prems(1), of q]
  have ok: "store_ok (snd (handle q s))"
    and st: "records_step s (account_records s) (account_records (snd (handle q s)))"
    by simp_all
  from records_step_paid [OF st Cons.prems(2)] Cons.IH [OF ok]
  show ?case by simp
qed

lemma run_no_viewer_manager:
  "store_ok s \<Longrightarrow> viewer_sessions_ok s \<Longrightarrow> no_viewer_manager (account_records s) \<Longrightarrow>
   \<forall>q \<in> set qs. ordinary_login q \<Longrightarrow>
   no_viewer_manager (account_records (run qs s)) \<and> viewer_sessions_ok (run qs s)"
proof (induction qs arbitrary: s)
  case Nil
  then show ?case by simp
next
  case (Cons q qs)
  from handle_step [OF Cons.prems(1), of q]
  have ok: "store_ok (snd (handle q s))"
    and st: "records_step s (account_records s) (account_records (snd (handle q s)))"
    by simp_all
  have q: "ordinary_login q" and qs: "\<forall>q \<in> set qs. ordinary_login q"
    using Cons.prems(4) by simp_all
  note ses = handle_sessions_ok [OF Cons.prems(2) q Cons.prems(1)]
  note mgr = records_step_manager [OF st Cons.prems(3,2)]
  from Cons.IH [OF ok ses mgr qs] show ?case by simp
qed










section \<open>The sample stores\<close>

text \<open>
  Ints of up to six digits can be written; the total of 4300 digits and its negative
  can, their difference cannot.
\<close>

lemma max_str_digits_pos: "0 < max_str_digits"
  by (simp add: max_str_digits_def)

lemma str_digits_ok_small: "\<bar>n\<bar> < 1000000 \<Longrightarrow> str_digits_ok n"
proof -
  assume n: "\<bar>n\<bar> < 1000000"
  have "(10::int) ^ 6 \<le> 10 ^ max_str_digits"
    by (rule power_increasing) (simp_all add: max_str_digits_def)
  then have "(1000000::int) \<le> 10 ^ max_str_digits" by simp
  with n show ?thesis unfolding str_digits_ok_def by linarith
qed

lemma big_digits:
  "0 < big" "str_digits_ok big" "str_digits_ok (- big)" "\<not> str_digits_ok (big + big)"
proof -
  let ?x = "(10::int) ^ (max_str_digits - 1)"
  have x: "0 < ?x" by simp
  have "(10::int) ^ max_str_digits = ?x * 10"
    using power_minus_mult [OF max_str_digits_pos, of "10::int"] by simp
  then have p: "(10::int) ^ max_str_digits = 10 * ?x" by simp
  show "0 < big" using x by (simp add: big_def)
  show "str_digits_ok big" using x unfolding str_digits_ok_def big_def p by linarith
  show "str_digits_ok (- big)" using x unfolding str_digits_ok_def big_def p by linarith
  show "\<not> str_digits_ok (big + big)" using x unfolding str_digits_ok_def big_def p by linarith
qed

lemma big_arith [simp]:
  "- big \<le> big" "\<not> big < - big" "\<not> big < 0" "0 \<le> big" "\<not> str_digits_ok (2 * big)"
  using big_digits by simp_all


lemmas sample_defs =
  alice_def bob_def token_a_def token_b_def token_v_def code_1001_def name_1001_def
  alice_session_def bob_session_def viewer_session_def alice_account_def viewer_name_def

lemmas handler_defs =
  login_def add_account_def add_payment_def toggle_lock_def delete_account_def logout_def
  index_def get_session_def get_all_accounts_eq set_remaining_def db_add_account_def
  db_add_paid_amount_def db_toggle_lock_def db_delete_account_def db_save_data_def
  db_cleanup_expired_sessions_def json_dumpable_def str_digits_ok_small
  AccountRecord_dict_def ACCOUNT_MAPPING_def strip_def isspace_def timedelta_hours_def Let_def

lemma alice_store_reachable: "run alice_requests db_init = alice_store"
  by (simp add: alice_requests_def db_init_def alice_store_def handler_defs sample_defs)

lemma alice_store_ok: "store_ok alice_store"
  by (simp add: store_ok_def alice_store_def)

lemma team_store_reachable: "run team_requests db_init = team_store"
  by (simp add: team_requests_def run_append alice_store_reachable)
     (simp add: alice_store_def team_store_def handler_defs sample_defs)

lemma team_store_ok: "store_ok team_store"
  by (simp add: store_ok_def team_store_def)

lemma team_sessions:
  "fst (get_session (Some token_a) 10 team_store) = Inr (Some alice_session)"
  "fst (get_session (Some token_b) 10 team_store) = Inr (Some bob_session)"
  "fst (get_session (Some token_v) 10 team_store) = Inr (Some viewer_session)"
  by (simp_all add: get_session_def team_store_def timedelta_hours_def sample_defs)

lemma team_account: "account_at team_store 0 = alice_account"
  "account_records team_store = [alice_account]" "accounts team_store = [0]"
  by (simp_all add: account_at_def team_store_def account_records_def AccountRecord_of_def
      alice_account_def)



lemma overdrawn_store_reachable: "run (butlast overdrawn_requests) db_init = overdrawn_store"
  by (simp add: overdrawn_requests_def db_init_def overdrawn_store_def handler_defs sample_defs)

lemma overdrawn_payment:
  "add_payment 0 (- 10) (Some token_a) 3 overdrawn_store
     = (Inr (Redirect No_cookie),
        overdrawn_store
          \<lparr>heap := [alice_account\<lparr>total_amount := - 5, paid_amounts := [- 10],
                                   remaining_amount := Some (- 5)\<rparr>],
           data_file := Document [alice_account\<lparr>total_amount := - 5, paid_amounts := [- 10],
                                            remaining_amount := Some (- 5)\<rparr>]\<rparr>)"
  by (simp add: overdrawn_store_def handler_defs sample_defs)

lemma overdrawn_run:
  "account_records (run overdrawn_requests db_init)
     = [alice_account\<lparr>total_amount := - 5, paid_amounts := [- 10]\<rparr>]"
proof -
  have "run overdrawn_requests db_init
          = run [Post_add_payment 0 (- 10) (Some token_a) 3] (run (butlast overdrawn_requests) db_init)"
    unfolding run_append [symmetric] by (simp add: overdrawn_requests_def)
  then show ?thesis
    by (simp add: overdrawn_store_reachable overdrawn_payment)
       (simp add: account_records_def AccountRecord_of_def overdrawn_store_def alice_account_def)
qed

lemma unpaid_run:
  "run unpaid_requests db_init
     = \<lparr>heap = [alice_account\<lparr>total_amount := - 5, remaining_amount := Some (- 5)\<rparr>,
               alice_account\<lparr>total_amount := 10, created_time := 4, paid_amounts := [3],
                              remaining_amount := Some 10\<rparr>],
        accounts = [0, 1],
        sessions = [(token_a, alice_session)],
        data_file = Document [alice_account\<lparr>total_amount := - 5, remaining_amount := Some (- 5)\<rparr>,
               alice_account\<lparr>total_amount := 10, created_time := 4, paid_amounts := [3],
                              remaining_amount := Some 10\<rparr>],
        sessions_file = Document [(token_a, alice_session)]\<rparr>"
  by (simp add: unpaid_requests_def db_init_def handler_defs sample_defs)

lemma sentinel_store_reachable: "run sentinel_requests db_init = sentinel_store"
  by (simp add: sentinel_requests_def db_init_def sentinel_store_def handler_defs sample_defs)

lemma Database_init_no_files: "Database_init Missing Missing clock = db_init"
  by (simp add: Database_init_def load_data_def db_init_def)


lemma big_store_not_dumpable: "\<not> accounts_dumpable big_store"
  by (simp add: accounts_dumpable_def big_store_def json_dumpable_def big_digits)




section \<open>The scenario of the specification\<close>

text \<open>
  The model gives the outcomes the specification lists: the responses in turn, the
  record at the end, and a remaining amount of 500 in the listing.
\<close>

lemma ledger_scenario:
  "responses scenario_requests db_init
     = [Inr (Redirect (Set_cookie token_a)), Inr (Redirect No_cookie), Inr (Redirect No_cookie),
        PaymentExceedsRemaining, Inr (Redirect No_cookie), Inr (Redirect (Set_cookie token_b)),
        Inl (HTTPException 403 Account_is_locked), Inr (Redirect No_cookie)]
   \<and> account_records (run scenario_requests db_init)
       = [alice_account\<lparr>paid_amounts := [400, 100], locked := True\<rparr>]
   \<and> map remaining_amount
         (map (\<lambda>r. heap (snd (db_get_all_accounts (run scenario_requests db_init))) ! r)
              (fst (db_get_all_accounts (run scenario_requests db_init))))
       = [Some 500]"
  by (simp add: scenario_requests_def db_init_def handler_defs PaymentExceedsRemaining_def
      account_records_def AccountRecord_of_def sample_defs)



section \<open>Claims\<close>

text \<open>
  C1. For every account that \<open>get_all_accounts\<close> returns, whatever payments the store
  has admitted before, the \<open>remaining_amount\<close> of the returned dict is its
  \<open>total_amount\<close> minus the sum of its \<open>paid_amounts\<close>, over the integers; and total
  and payments are those of the stored account. The store is any store whose entries
  refer to live dicts of their own, as every store is that requests reach from the
  empty one (\<open>run_store_ok\<close>).
\<close>

theorem get_all_accounts_remaining_amount:
  assumes "store_ok s" and "db_get_all_accounts s = (accs, s')" and "i < length accs"
  shows "remaining_amount (heap s' ! (accs ! i)) =
           Some (total_amount (heap s' ! (accs ! i))
                 - sum_list (paid_amounts (heap s' ! (accs ! i))))
         \<and> total_amount (heap s' ! (accs ! i)) = total_amount (account_at s i)
         \<and> paid_amounts (heap s' ! (accs ! i)) = paid_amounts (account_at s i)"
proof -
  from assms(2) have accs: "accs = accounts s"
    and s': "s' = s\<lparr>heap := foldl set_remaining (heap s) (accounts s)\<rparr>"
    by (auto simp: get_all_accounts_eq)
  let ?r = "accounts s ! i"
  have mem: "?r \<in> set (accounts s)" using assms(3) accs by simp
  with assms(1) have "?r < length (heap s)" by (simp add: store_ok_def)
  then have "heap s' ! ?r = with_remaining (heap s ! ?r)"
    using mem by (simp add: s' foldl_set_remaining_nth)
  then show ?thesis
    by (simp add: accs with_remaining_def account_at_def)
qed

theorem get_all_accounts_remaining_amount_witness:
  "store_ok alice_store
   \<and> db_get_all_accounts alice_store = ([0], alice_store\<lparr>heap := [with_remaining alice_account]\<rparr>)
   \<and> remaining_amount (heap (alice_store\<lparr>heap := [with_remaining alice_account]\<rparr>) ! ([0] ! 0))
       = Some 1000"
proof -
  have g: "db_get_all_accounts alice_store
             = ([0], alice_store\<lparr>heap := [with_remaining alice_account]\<rparr>)"
    by (simp add: get_all_accounts_eq alice_store_def set_remaining_def with_remaining_def)
  have l: "(0::nat) < length [0::nat]" by simp
  from get_all_accounts_remaining_amount [OF alice_store_ok g l] alice_store_ok g
  show ?thesis
    by (simp add: alice_store_def alice_account_def with_remaining_def)
qed


text \<open>
  C2. \<open>remaining_amount\<close> is stored and persisted: \<open>get_all_accounts\<close> copies the
  list and not the dicts, so it writes the key into the stored dicts, and the next
  \<open>save_data\<close> writes it to the accounts document. After alice's payment of 400 on her
  account of 1000 the document holds the payment together with the remaining amount
  1000 computed before it.
\<close>

theorem get_all_accounts_writes_store:
  "remaining_amount (account_at team_store 0) = None
   \<and> remaining_amount (account_at (snd (db_get_all_accounts team_store)) 0) = Some 1000
   \<and> data_file (snd (add_payment 0 400 (Some token_a) 10 team_store))
       = Document [alice_account\<lparr>paid_amounts := [400], remaining_amount := Some 1000\<rparr>]"
  by (simp add: team_store_def handler_defs sample_defs account_at_def
      PaymentExceedsRemaining_def)


text \<open>
  C3, as amended. Whatever the store (any totals, zero and negative ones too, and any
  payments admitted before), when \<open>add_payment\<close> admits a payment of any amount, the
  account at the index has got this payment, kept its total, and its payments sum to at
  most its total. Every request keeps the property that each record holding a payment
  has paid at most its total; so it holds in every store reached from the empty one.
\<close>

theorem admitted_payments_within_total:
  "(store_ok s \<and> fst (add_payment i amount c now s) = Inr resp \<longrightarrow>
      0 \<le> i \<and> i < int (length (accounts s))
      \<and> paid_amounts (account_at (snd (add_payment i amount c now s)) (nat i))
          = paid_amounts (account_at s (nat i)) @ [amount]
      \<and> total_amount (account_at (snd (add_payment i amount c now s)) (nat i))
          = total_amount (account_at s (nat i))
      \<and> sum_list (paid_amounts (account_at (snd (add_payment i amount c now s)) (nat i)))
          \<le> total_amount (account_at (snd (add_payment i amount c now s)) (nat i)))
   \<and> (store_ok s \<and> paid_within_total (account_records s) \<longrightarrow>
        paid_within_total (account_records (snd (handle q s))))
   \<and> (\<forall>a \<in> set (account_records (run qs db_init)).
        paid_amounts a \<noteq> [] \<longrightarrow> sum_list (paid_amounts a) \<le> total_amount a)"
proof (intro conjI impI)
  assume h: "store_ok s \<and> fst (add_payment i amount c now s) = Inr resp"
  then have ok: "store_ok s" by simp
  let ?s2 = "snd (db_get_all_accounts s)"
  let ?s' = "snd (add_payment i amount c now s)"
  from add_payment_admitted [of s i amount c now resp] h
  have r: "0 \<le> i" "i < int (length (accounts s))"
    and adm: "amount \<le> total_amount (account_at s (nat i))
                        - sum_list (paid_amounts (account_at s (nat i)))"
    and st: "?s' = snd (db_add_paid_amount i amount ?s2)"
    by simp_all
  show "0 \<le> i" "i < int (length (accounts s))" by (rule r)+
  have ok2: "store_ok ?s2" by (rule get_all_accounts_store_ok [OF ok])
  have r2: "i < int (length (accounts ?s2))" using r by (simp add: listing_frame)
  have n: "nat i < length (accounts s)" using r by simp
  have n': "nat i < length (accounts ?s')"
    using n add_paid_amount_saved(5) [OF r(1) r2, of amount] by (simp add: st listing_frame)
  have "account_records ?s' = (account_records s)[nat i := (account_records s ! nat i)
          \<lparr>paid_amounts := paid_amounts (account_records s ! nat i) @ [amount]\<rparr>]"
    using add_paid_amount_records [OF ok2 r(1) r2, of amount]
    by (simp add: st get_all_accounts_records [OF ok])
  then have "account_records ?s' ! nat i = (account_records s ! nat i)
          \<lparr>paid_amounts := paid_amounts (account_records s ! nat i) @ [amount]\<rparr>"
    using n by simp
  then have rec: "AccountRecord_of (account_at ?s' (nat i))
      = (AccountRecord_of (account_at s (nat i)))
          \<lparr>paid_amounts := paid_amounts (AccountRecord_of (account_at s (nat i))) @ [amount]\<rparr>"
    using n n' by (simp add: account_records_nth)
  have p: "paid_amounts (AccountRecord_of d) = paid_amounts d"
    and t: "total_amount (AccountRecord_of d) = total_amount d" for d
    by (simp_all add: AccountRecord_of_def)
  from rec have "paid_amounts (AccountRecord_of (account_at ?s' (nat i)))
        = paid_amounts (AccountRecord_of (account_at s (nat i))) @ [amount]"
    by simp
  then show pa: "paid_amounts (account_at ?s' (nat i)) = paid_amounts (account_at s (nat i)) @ [amount]"
    by (simp add: p)
  from rec have "total_amount (AccountRecord_of (account_at ?s' (nat i)))
        = total_amount (AccountRecord_of (account_at s (nat i)))"
    by simp
  then show ta: "total_amount (account_at ?s' (nat i)) = total_amount (account_at s (nat i))"
    by (simp add: t)
  show "sum_list (paid_amounts (account_at ?s' (nat i))) \<le> total_amount (account_at ?s' (nat i))"
    using adm by (simp add: pa ta)
next
  assume h: "store_ok s \<and> paid_within_total (account_records s)"
  then have "records_step s (account_records s) (account_records (snd (handle q s)))"
    using handle_step [of s q] by simp
  then show "paid_within_total (account_records (snd (handle q s)))"
    using h by (simp add: records_step_paid)
next
  have "paid_within_total (account_records (run qs db_init))"
    by (rule run_paid_within_total)
       (simp_all add: store_ok_def paid_within_total_def account_records_def db_init_def)
  then show "\<forall>a \<in> set (account_records (run qs db_init)).
        paid_amounts a \<noteq> [] \<longrightarrow> sum_list (paid_amounts a) \<le> total_amount a"
    by (simp add: paid_within_total_def)
qed

theorem admitted_payments_within_total_witness:
  "store_ok overdrawn_store
   \<and> fst (add_payment 0 (- 10) (Some token_a) 3 overdrawn_store) = Inr (Redirect No_cookie)
   \<and> total_amount (account_at (snd (add_payment 0 (- 10) (Some token_a) 3 overdrawn_store)) 0) = - 5
   \<and> paid_amounts (account_at (snd (add_payment 0 (- 10) (Some token_a) 3 overdrawn_store)) 0)
       = [- 10]
   \<and> sum_list (paid_amounts (account_at (snd (add_payment 0 (- 10) (Some token_a) 3 overdrawn_store)) (nat 0)))
       \<le> total_amount (account_at (snd (add_payment 0 (- 10) (Some token_a) 3 overdrawn_store)) (nat 0))
   \<and> paid_within_total (account_records overdrawn_store)
   \<and> paid_within_total
        (account_records (snd (handle (Post_add_payment 0 (- 10) (Some token_a) 3) overdrawn_store)))
   \<and> alice_account\<lparr>total_amount := - 5, paid_amounts := [- 10]\<rparr>
       \<in> set (account_records (run overdrawn_requests db_init))
   \<and> sum_list (paid_amounts (alice_account\<lparr>total_amount := - 5, paid_amounts := [- 10]\<rparr>))
       \<le> total_amount (alice_account\<lparr>total_amount := - 5, paid_amounts := [- 10]\<rparr>)"
proof -
  have ok: "store_ok overdrawn_store" by (simp add: store_ok_def overdrawn_store_def)
  have adm: "fst (add_payment 0 (- 10) (Some token_a) 3 overdrawn_store) = Inr (Redirect No_cookie)"
    by (simp add: overdrawn_payment)
  have mem: "alice_account\<lparr>total_amount := - 5, paid_amounts := [- 10]\<rparr>
       \<in> set (account_records (run overdrawn_requests db_init))"
    by (simp add: overdrawn_run)
  have inv: "paid_within_total (account_records overdrawn_store)"
    by (simp add: paid_within_total_def account_records_def AccountRecord_of_def
        overdrawn_store_def alice_account_def)
  from admitted_payments_within_total
         [of overdrawn_store 0 "- 10" "Some token_a" 3 "Redirect No_cookie"
             "Post_add_payment 0 (- 10) (Some token_a) 3" overdrawn_requests]
    ok adm mem inv
  show ?thesis
    by (simp add: account_at_def overdrawn_store_def alice_account_def)
qed


text \<open>
  For a record that holds no payment the bound fails: \<open>add_account\<close> takes any total,
  and an account of total -5 has paid 0, also in the store right after a payment was
  admitted on the account beside it.
\<close>

theorem unpaid_record_exceeds_total:
  "fst (handle (Post_add_payment 1 3 (Some token_a) 5) (run (butlast unpaid_requests) db_init))
     = Inr (Redirect No_cookie)
   \<and> run unpaid_requests db_init
       = snd (handle (Post_add_payment 1 3 (Some token_a) 5) (run (butlast unpaid_requests) db_init))
   \<and> total_amount (account_at (run unpaid_requests db_init) 0) = - 5
   \<and> paid_amounts (account_at (run unpaid_requests db_init) 0) = []
   \<and> \<not> sum_list (paid_amounts (account_at (run unpaid_requests db_init) 0))
         \<le> total_amount (account_at (run unpaid_requests db_init) 0)"
proof (intro conjI)
  show "fst (handle (Post_add_payment 1 3 (Some token_a) 5)
               (run (butlast unpaid_requests) db_init)) = Inr (Redirect No_cookie)"
    by (simp add: unpaid_requests_def db_init_def handler_defs sample_defs)
  show "run unpaid_requests db_init
        = snd (handle (Post_add_payment 1 3 (Some token_a) 5) (run (butlast unpaid_requests) db_init))"
    unfolding unpaid_requests_def by simp
  show "total_amount (account_at (run unpaid_requests db_init) 0) = - 5"
    by (simp add: unpaid_run account_at_def alice_account_def)
  show "paid_amounts (account_at (run unpaid_requests db_init) 0) = []"
    by (simp add: unpaid_run account_at_def alice_account_def)
  show "\<not> sum_list (paid_amounts (account_at (run unpaid_requests db_init) 0))
         \<le> total_amount (account_at (run unpaid_requests db_init) 0)"
    by (simp add: unpaid_run account_at_def alice_account_def)
qed


text \<open>
  C4. A payment above the remaining amount is rejected, and yet the handler has listed
  the accounts first: on the sample store the rejected payment of 1700 leaves the stored
  dict with the key \<open>remaining_amount\<close> it did not have before.
\<close>

theorem rejected_payment_writes_store:
  "fst (add_payment 0 1700 (Some token_a) 10 team_store) = PaymentExceedsRemaining
   \<and> heap team_store = [alice_account]
   \<and> heap (snd (add_payment 0 1700 (Some token_a) 10 team_store))
       = [alice_account\<lparr>remaining_amount := Some 1000\<rparr>]
   \<and> snd (add_payment 0 1700 (Some token_a) 10 team_store) \<noteq> team_store"
  by (simp add: team_store_def handler_defs sample_defs account_at_def
      PaymentExceedsRemaining_def)


text \<open>
  What holds of \<open>add_payment\<close> with a resolved session, an index in range and an account
  that is not locked by another manager: a payment above the remaining amount is
  rejected with \<open>PaymentExceedsRemaining\<close>, the records (the keys of \<open>AccountRecord\<close>),
  the sessions and both documents being as before; any other payment is appended to the
  \<open>paid_amounts\<close> of the record at the index, all other records being as before, and
  the store is saved if its accounts can be dumped.
\<close>

theorem add_payment_outcome:
  assumes "fst (get_session c now s) = Inr (Some u)" and "store_ok s"
    and "0 \<le> i" and "i < int (length (accounts s))"
    and "\<not> (locked (account_at s (nat i)) \<and> manager (account_at s (nat i)) \<noteq> username u)"
  shows
    "(amount > total_amount (account_at s (nat i)) - sum_list (paid_amounts (account_at s (nat i)))
        \<longrightarrow> fst (add_payment i amount c now s) = PaymentExceedsRemaining
          \<and> account_records (snd (add_payment i amount c now s)) = account_records s
          \<and> accounts (snd (add_payment i amount c now s)) = accounts s
          \<and> sessions (snd (add_payment i amount c now s)) = sessions s
          \<and> data_file (snd (add_payment i amount c now s)) = data_file s
          \<and> sessions_file (snd (add_payment i amount c now s)) = sessions_file s)
     \<and> (amount \<le> total_amount (account_at s (nat i)) - sum_list (paid_amounts (account_at s (nat i)))
        \<longrightarrow> account_records (snd (add_payment i amount c now s))
              = (account_records s)[nat i := (account_records s ! nat i)
                   \<lparr>paid_amounts := paid_amounts (account_records s ! nat i) @ [amount]\<rparr>]
          \<and> sessions (snd (add_payment i amount c now s)) = sessions s
          \<and> fst (add_payment i amount c now s)
              = (if accounts_dumpable (snd (add_payment i amount c now s))
                 then Inr (Redirect No_cookie) else Inl (Unhandled ValueError))
          \<and> data_file (snd (add_payment i amount c now s))
              = (if accounts_dumpable (snd (add_payment i amount c now s))
                 then Document (map (\<lambda>q. heap (snd (add_payment i amount c now s)) ! q)
                                    (accounts (snd (add_payment i amount c now s))))
                 else Unreadable)
          \<and> sessions_file (snd (add_payment i amount c now s))
              = (if accounts_dumpable (snd (add_payment i amount c now s))
                 then Document (sessions s) else sessions_file s))"
proof -
  let ?s2 = "snd (db_get_all_accounts s)"
  have ok2: "store_ok ?s2" by (rule get_all_accounts_store_ok [OF assms(2)])
  have rec2: "account_records ?s2 = account_records s"
    by (rule get_all_accounts_records [OF assms(2)])
  have i2: "i < int (length (accounts ?s2))" using assms(4) by (simp add: listing_frame)
  note unf = add_payment_resolved [OF assms(1-4), of amount]
  note upd = add_paid_amount_records [OF ok2 assms(3) i2, of amount]
  note per = add_paid_amount_saved(2-5) [OF assms(3) i2, of amount]
  have nl: "(locked (account_at s (nat i)) \<and> manager (account_at s (nat i)) \<noteq> username u)
              = False"
    using assms(5) by simp
  show ?thesis
    using upd per by (simp add: unf nl rec2 listing_frame)
qed

theorem add_payment_outcome_witness:
  "fst (get_session (Some token_a) 10 team_store) = Inr (Some alice_session)
   \<and> store_ok team_store
   \<and> fst (add_payment 0 1700 (Some token_a) 10 team_store) = PaymentExceedsRemaining
   \<and> account_records (snd (add_payment 0 1700 (Some token_a) 10 team_store)) = [alice_account]
   \<and> account_records (snd (add_payment 0 400 (Some token_a) 10 team_store))
       = [alice_account\<lparr>paid_amounts := [400]\<rparr>]"
proof -
  have h: "(0::int) \<le> 0" "0 < int (length (accounts team_store))"
    "\<not> (locked (account_at team_store (nat 0))
         \<and> manager (account_at team_store (nat 0)) \<noteq> username alice_session)"
    by (simp_all add: team_account alice_account_def)
  from add_payment_outcome [OF team_sessions(1) team_store_ok h, of 1700]
    add_payment_outcome [OF team_sessions(1) team_store_ok h, of 400]
    team_sessions(1) team_store_ok
  show ?thesis
    by (simp add: team_account alice_account_def)
qed


text \<open>
  C5, as amended. In every store reached from the empty one by requests among which no
  named user logs in under the viewer's name, no account is managed under the viewer's
  name, and \<open>toggle_lock\<close> with a viewer's session fails with status 403 for every
  account, whatever its lock state.
\<close>

theorem viewer_cannot_toggle_lock:
  assumes "\<forall>q \<in> set qs. ordinary_login q"
  shows "(\<forall>a \<in> set (account_records (run qs db_init)). manager a \<noteq> viewer_name)
     \<and> (\<forall>c now u i. fst (get_session c now (run qs db_init)) = Inr (Some u) \<and> is_viewer u
           \<and> 0 \<le> i \<and> i < int (length (accounts (run qs db_init)))
         \<longrightarrow> fst (toggle_lock i c now (run qs db_init))
               = Inl (HTTPException 403 Only_own_account_lock)
             \<and> Forbidden (fst (toggle_lock i c now (run qs db_init))))"
proof -
  let ?s = "run qs db_init"
  have init: "store_ok db_init" "viewer_sessions_ok db_init"
    "no_viewer_manager (account_records db_init)"
    by (simp_all add: store_ok_def viewer_sessions_ok_def no_viewer_manager_def
        account_records_def db_init_def)
  from run_no_viewer_manager [OF init assms]
  have mgr: "no_viewer_manager (account_records ?s)" and ses: "viewer_sessions_ok ?s"
    by simp_all
  have ok: "store_ok ?s" by (rule run_store_ok [OF init(1)])
  have "fst (toggle_lock i c now ?s) = Inl (HTTPException 403 Only_own_account_lock)"
    if res: "fst (get_session c now ?s) = Inr (Some u)" and v: "is_viewer u"
      and r: "0 \<le> i" "i < int (length (accounts ?s))" for c now u i
  proof -
    from get_session_member [OF res] obtain sid where "(sid, u) \<in> set (sessions ?s)" ..
    with ses v have name: "username u = viewer_name" by (auto simp: viewer_sessions_ok_def)
    have n: "nat i < length (accounts ?s)" using r by simp
    then have "account_records ?s ! nat i \<in> set (account_records ?s)" by simp
    with mgr have "manager (account_records ?s ! nat i) \<noteq> viewer_name"
      by (simp add: no_viewer_manager_def)
    then have "manager (account_at ?s (nat i)) \<noteq> username u"
      using n by (simp add: account_records_nth AccountRecord_of_def name)
    then show ?thesis by (simp add: toggle_lock_resolved [OF res ok r])
  qed
  then show ?thesis
    using mgr by (simp add: no_viewer_manager_def Forbidden_def)
qed

theorem viewer_cannot_toggle_lock_witness:
  "list_all ordinary_login team_requests
   \<and> run team_requests db_init = team_store
   \<and> manager alice_account \<noteq> viewer_name
   \<and> fst (get_session (Some token_v) 10 team_store) = Inr (Some viewer_session)
   \<and> is_viewer viewer_session
   \<and> fst (toggle_lock 0 (Some token_v) 10 team_store)
       = Inl (HTTPException 403 Only_own_account_lock)"
proof -
  have o: "list_all ordinary_login team_requests"
    by (simp add: team_requests_def alice_requests_def strip_def isspace_def sample_defs)
  then have h: "\<forall>q \<in> set team_requests. ordinary_login q" by (simp add: list_all_iff)
  have m: "alice_account \<in> set (account_records (run team_requests db_init))"
    by (simp add: team_store_reachable team_account)
  have v: "is_viewer viewer_session" by (simp add: viewer_session_def)
  have r: "(0::int) \<le> 0" "0 < int (length (accounts (run team_requests db_init)))"
    by (simp_all add: team_store_reachable team_account)
  from viewer_cannot_toggle_lock [OF h] m v r team_sessions(3) o
  show ?thesis
    by (auto simp: team_store_reachable)
qed


text \<open>
  Without the restriction the statement fails: \<open>login\<close> accepts the viewer's name from
  a named user; the account this user creates is managed under the viewer's name, and a
  viewer then locks it.
\<close>

theorem viewer_toggles_lock_of_namesake:
  "run sentinel_requests db_init = sentinel_store
   \<and> manager (account_at sentinel_store 0) = viewer_name
   \<and> fst (get_session (Some token_v) 10 sentinel_store) = Inr (Some viewer_session)
   \<and> is_viewer viewer_session
   \<and> fst (toggle_lock 0 (Some token_v) 10 sentinel_store) = Inr (Redirect No_cookie)
   \<and> locked (account_at (snd (toggle_lock 0 (Some token_v) 10 sentinel_store)) 0)"
  by (simp add: sentinel_store_reachable)
     (simp add: sentinel_store_def handler_defs sample_defs account_at_def)


text \<open>
  C6. A caller who is not the manager is refused, and yet the handler has listed the
  accounts first: bob's refused call leaves alice's stored dict with the key
  \<open>remaining_amount\<close> it did not have before.
\<close>

theorem forbidden_toggle_writes_store:
  "fst (toggle_lock 0 (Some token_b) 10 team_store) = Inl (HTTPException 403 Only_own_account_lock)
   \<and> heap team_store = [alice_account]
   \<and> heap (snd (toggle_lock 0 (Some token_b) 10 team_store))
       = [alice_account\<lparr>remaining_amount := Some 1000\<rparr>]
   \<and> snd (toggle_lock 0 (Some token_b) 10 team_store) \<noteq> team_store"
  by (simp add: team_store_def handler_defs sample_defs account_at_def
      PaymentExceedsRemaining_def)


text \<open>
  What holds of \<open>toggle_lock\<close> with a resolved session and an index in range: if the
  session's user name is the account's manager, the \<open>locked\<close> flag of the record at the
  index is flipped, every other key of every record is as before, and the store is
  saved if its accounts can be dumped; otherwise the call fails with status 403,
  whatever the lock state, the records, the sessions and both documents being as before.
\<close>

theorem toggle_lock_outcome:
  assumes "fst (get_session c now s) = Inr (Some u)" and "store_ok s"
    and "0 \<le> i" and "i < int (length (accounts s))"
  shows
    "(username u = manager (account_at s (nat i))
        \<longrightarrow> account_records (snd (toggle_lock i c now s))
              = (account_records s)[nat i := (account_records s ! nat i)
                   \<lparr>locked := \<not> locked (account_records s ! nat i)\<rparr>]
          \<and> sessions (snd (toggle_lock i c now s)) = sessions s
          \<and> fst (toggle_lock i c now s)
              = (if accounts_dumpable (snd (toggle_lock i c now s))
                 then Inr (Redirect No_cookie) else Inl (Unhandled ValueError))
          \<and> data_file (snd (toggle_lock i c now s))
              = (if accounts_dumpable (snd (toggle_lock i c now s))
                 then Document (map (\<lambda>q. heap (snd (toggle_lock i c now s)) ! q)
                                    (accounts (snd (toggle_lock i c now s))))
                 else Unreadable)
          \<and> sessions_file (snd (toggle_lock i c now s))
              = (if accounts_dumpable (snd (toggle_lock i c now s))
                 then Document (sessions s) else sessions_file s))
     \<and> (username u \<noteq> manager (account_at s (nat i))
        \<longrightarrow> fst (toggle_lock i c now s) = Inl (HTTPException 403 Only_own_account_lock)
          \<and> Forbidden (fst (toggle_lock i c now s))
          \<and> account_records (snd (toggle_lock i c now s)) = account_records s
          \<and> accounts (snd (toggle_lock i c now s)) = accounts s
          \<and> sessions (snd (toggle_lock i c now s)) = sessions s
          \<and> data_file (snd (toggle_lock i c now s)) = data_file s
          \<and> sessions_file (snd (toggle_lock i c now s)) = sessions_file s)"
proof -
  let ?s2 = "snd (db_get_all_accounts s)"
  have ok2: "store_ok ?s2" by (rule get_all_accounts_store_ok [OF assms(2)])
  have rec2: "account_records ?s2 = account_records s"
    by (rule get_all_accounts_records [OF assms(2)])
  have i2: "i < int (length (accounts ?s2))" using assms(4) by (simp add: listing_frame)
  have n: "nat i < length (accounts s)" using assms(3,4) by simp
  have lk: "locked (account_records s ! nat i) = locked (account_at s (nat i))"
    using n by (simp add: account_records_nth AccountRecord_of_def)
  note unf = toggle_lock_resolved [OF assms(1-4)]
  note upd = toggle_lock_records [OF ok2 assms(3) i2, of "\<not> locked (account_at s (nat i))"]
  note per = toggle_lock_saved(2-5) [OF assms(3) i2, of "\<not> locked (account_at s (nat i))"]
  show ?thesis
    using upd per by (auto simp: unf rec2 listing_frame lk Forbidden_def)
qed

theorem toggle_lock_outcome_witness:
  "fst (get_session (Some token_a) 10 team_store) = Inr (Some alice_session)
   \<and> fst (get_session (Some token_b) 10 team_store) = Inr (Some bob_session)
   \<and> store_ok team_store
   \<and> account_records (snd (toggle_lock 0 (Some token_a) 10 team_store))
       = [alice_account\<lparr>locked := True\<rparr>]
   \<and> Forbidden (fst (toggle_lock 0 (Some token_b) 10 team_store))
   \<and> account_records (snd (toggle_lock 0 (Some token_b) 10 team_store)) = [alice_account]"
proof -
  have h: "(0::int) \<le> 0" "0 < int (length (accounts team_store))"
    by (simp_all add: team_account)
  from toggle_lock_outcome [OF team_sessions(1) team_store_ok h]
    toggle_lock_outcome [OF team_sessions(2) team_store_ok h]
    team_sessions(1,2) team_store_ok
  show ?thesis
    by (simp add: team_account alice_account_def alice_session_def bob_session_def
        alice_def bob_def Forbidden_def)
qed


text \<open>
  C7. A caller who is neither the manager nor a viewer is refused, and yet the handler
  has listed the accounts first: bob's refused call leaves alice's stored dict with the
  key \<open>remaining_amount\<close> it did not have before.
\<close>

theorem forbidden_delete_writes_store:
  "fst (delete_account 0 (Some token_b) 10 team_store)
     = Inl (HTTPException 403 Only_own_account_delete)
   \<and> heap team_store = [alice_account]
   \<and> heap (snd (delete_account 0 (Some token_b) 10 team_store))
       = [alice_account\<lparr>remaining_amount := Some 1000\<rparr>]
   \<and> snd (delete_account 0 (Some token_b) 10 team_store) \<noteq> team_store"
  by (simp add: team_store_def handler_defs sample_defs account_at_def
      PaymentExceedsRemaining_def)


text \<open>
  What holds of \<open>delete_account\<close> with a resolved session and an index in range: if the
  session's user name is the account's manager, or the session is a viewer's, the record
  at the index is removed and the store is saved if its accounts can be dumped;
  otherwise the call fails with status 403, the records, the sessions and both
  documents being as before.
\<close>

theorem delete_account_outcome:
  assumes "fst (get_session c now s) = Inr (Some u)" and "store_ok s"
    and "0 \<le> i" and "i < int (length (accounts s))"
  shows
    "(username u = manager (account_at s (nat i)) \<or> is_viewer u
        \<longrightarrow> account_records (snd (delete_account i c now s))
              = take (nat i) (account_records s) @ drop (Suc (nat i)) (account_records s)
          \<and> sessions (snd (delete_account i c now s)) = sessions s
          \<and> fst (delete_account i c now s)
              = (if accounts_dumpable (snd (delete_account i c now s))
                 then Inr (Redirect No_cookie) else Inl (Unhandled ValueError))
          \<and> data_file (snd (delete_account i c now s))
              = (if accounts_dumpable (snd (delete_account i c now s))
                 then Document (map (\<lambda>q. heap (snd (delete_account i c now s)) ! q)
                                    (accounts (snd (delete_account i c now s))))
                 else Unreadable)
          \<and> sessions_file (snd (delete_account i c now s))
              = (if accounts_dumpable (snd (delete_account i c now s))
                 then Document (sessions s) else sessions_file s))
     \<and> (\<not> (username u = manager (account_at s (nat i)) \<or> is_viewer u)
        \<longrightarrow> fst (delete_account i c now s) = Inl (HTTPException 403 Only_own_account_delete)
          \<and> Forbidden (fst (delete_account i c now s))
          \<and> account_records (snd (delete_account i c now s)) = account_records s
          \<and> accounts (snd (delete_account i c now s)) = accounts s
          \<and> sessions (snd (delete_account i c now s)) = sessions s
          \<and> data_file (snd (delete_account i c now s)) = data_file s
          \<and> sessions_file (snd (delete_account i c now s)) = sessions_file s)"
proof -
  let ?s2 = "snd (db_get_all_accounts s)"
  have rec2: "account_records ?s2 = account_records s"
    by (rule get_all_accounts_records [OF assms(2)])
  have i2: "i < int (length (accounts ?s2))" using assms(4) by (simp add: listing_frame)
  note unf = delete_account_resolved [OF assms(1-4)]
  note upd = delete_account_records [OF assms(3) i2]
  note per = delete_account_saved(2-4) [OF assms(3) i2]
  show ?thesis
    using upd per by (auto simp: unf rec2 listing_frame Forbidden_def)
qed

theorem delete_account_outcome_witness:
  "fst (get_session (Some token_v) 10 team_store) = Inr (Some viewer_session)
   \<and> fst (get_session (Some token_b) 10 team_store) = Inr (Some bob_session)
   \<and> store_ok team_store
   \<and> account_records (snd (delete_account 0 (Some token_v) 10 team_store)) = []
   \<and> Forbidden (fst (delete_account 0 (Some token_b) 10 team_store))
   \<and> account_records (snd (delete_account 0 (Some token_b) 10 team_store)) = [alice_account]"
proof -
  have h: "(0::int) \<le> 0" "0 < int (length (accounts team_store))"
    by (simp_all add: team_account)
  from delete_account_outcome [OF team_sessions(3) team_store_ok h]
    delete_account_outcome [OF team_sessions(2) team_store_ok h]
    team_sessions(2,3) team_store_ok
  show ?thesis
    by (simp add: team_account alice_account_def viewer_session_def bob_session_def
        alice_def bob_def Forbidden_def)
qed





text \<open>
  A session that \<open>login\<close> has stored under the token it was given resolves 23 hours
  59 minutes later.
\<close>

theorem login_then_resolve:
  assumes "uuid4 \<noteq> []" and "viewer_mode \<or> strip username_form \<noteq> []"
  shows "\<exists>u. fst (get_session (Some uuid4) (T + timedelta_hours 23 + timedelta_minutes 59)
               (snd (login username_form viewer_mode uuid4 T s))) = Inr (Some u)
             \<and> login_time u = T"
  using assms login_sessions [of username_form viewer_mode uuid4 T s]
  by (auto simp: get_session_def login_def Let_def returning AList.update_conv
      timedelta_hours_def timedelta_minutes_def)









text \<open>
  C10. The four index-addressed methods of the store, \<open>update_account\<close>,
  \<open>delete_account\<close>, \<open>add_paid_amount\<close> and \<open>toggle_lock\<close>, called with an index
  below 0 or not below the length of \<open>accounts\<close>, return without an error and leave the
  whole store as it was: the collections in memory and both documents on disk.
\<close>

theorem store_mutators_out_of_range:
  assumes "idx < 0 \<or> int (length (accounts s)) \<le> idx"
  shows "db_update_account idx d s = (Inr (), s) \<and> db_delete_account idx s = (Inr (), s) \<and>
         db_add_paid_amount idx a s = (Inr (), s) \<and> db_toggle_lock idx b s = (Inr (), s)"
  using assms
  by (auto simp: db_update_account_def db_delete_account_def db_add_paid_amount_def
      db_toggle_lock_def)

theorem store_mutators_out_of_range_witness:
  "int (length (accounts alice_store)) \<le> 1
   \<and> db_update_account 1 0 alice_store = (Inr (), alice_store)
   \<and> db_delete_account 1 alice_store = (Inr (), alice_store)
   \<and> db_add_paid_amount 1 50 alice_store = (Inr (), alice_store)
   \<and> db_toggle_lock 1 True alice_store = (Inr (), alice_store)"
proof -
  have h: "(1::int) < 0 \<or> int (length (accounts alice_store)) \<le> 1"
    by (simp add: alice_store_def)
  from store_mutators_out_of_range [OF h, of 0 50 True] h show ?thesis
    by simp
qed

end
